theory Spec2Isabelle
  imports Main "HOL-Library.Word"
begin

section \<open>Bytes and 256-bit hashes (uint256.go)\<close>

text \<open>
  \<^verbatim>\<open>type Uint256 [32]byte\<close>. A Go array of 32 bytes is modelled as a list of
  bytes; the length 32, which the Go type fixes, is a hypothesis wherever an index is read.
\<close>

type_synonym byte = "8 word"
type_synonym Uint256 = "byte list"

text \<open>
  \<^verbatim>\<open>fmt.Sprintf("%02x", b)\<close> for a byte \<open>b\<close>: two lower-case hexadecimal digits,
  the high nibble first, padded with a zero.
\<close>

definition hexdigits :: string where
  "hexdigits = ''0123456789abcdef''"

definition hexdigit :: "nat \<Rightarrow> char" where
  "hexdigit d = hexdigits ! d"

definition Sprintf_02x :: "byte \<Rightarrow> string" where
  "Sprintf_02x b = [hexdigit (unat b div 16), hexdigit (unat b mod 16)]"

text \<open>The value of a hexadecimal digit: its position in the alphabet.\<close>

fun index_of :: "char \<Rightarrow> string \<Rightarrow> nat" where
  "index_of c [] = 0"
| "index_of c (d # ds) = (if c = d then 0 else Suc (index_of c ds))"

definition hexval :: "char \<Rightarrow> nat" where
  "hexval c = index_of c hexdigits"

text \<open>
  \<^verbatim>\<open>
  func (u Uint256) String() (s string) {
      for i := 0; i < 32; i++ {
          s += fmt.Sprintf("%02x", u[31-i])
      }
      return
  }
  \<close>
  The loop counter runs upwards, so the recursion is not structural; the measure is \<open>32 - i\<close>.
\<close>

function String_loop :: "Uint256 \<Rightarrow> nat \<Rightarrow> string \<Rightarrow> string" where
  "String_loop u i s =
     (if i < 32 then String_loop u (i + 1) (s @ Sprintf_02x (u ! (31 - i))) else s)"
  by pat_completeness auto
termination
  by (relation "measure (\<lambda>(u, i, s). 32 - i)") auto

definition String :: "Uint256 \<Rightarrow> string" where
  "String u = String_loop u 0 []"

text \<open>The hash of the genesis block, in the byte order in which it is held in memory.\<close>

definition sample_hash :: Uint256 where
  "sample_hash = [0x6f, 0xe2, 0x8c, 0x0a, 0xb6, 0xf1, 0xb3, 0x72,
                  0xc1, 0xa6, 0xa2, 0x46, 0xae, 0x63, 0xf7, 0x4f,
                  0x93, 0x1e, 0x83, 0x65, 0xe1, 0x5a, 0x08, 0x9c,
                  0x68, 0xd6, 0x19, 0x00, 0x00, 0x00, 0x00, 0x00]"

section \<open>Go integers\<close>

text \<open>
  A Go conversion between integer types extends the value to unbounded precision and
  truncates it to the width of the target; \<open>int32 x\<close> and \<open>uint32 x\<close> are the results of
  \<^verbatim>\<open>int32(x)\<close> and \<^verbatim>\<open>uint32(x)\<close> as mathematical integers. Fields of Go type
  \<^verbatim>\<open>uint32\<close> are \<open>32 word\<close>; \<^verbatim>\<open>int\<close> (64 bits on the platforms the loader runs on)
  and \<^verbatim>\<open>int64\<close> are \<open>int\<close>, and the increment wraps around as the machine's does.
\<close>

definition int32 :: "int \<Rightarrow> int" where
  "int32 x = sint (word_of_int x :: 32 word)"

definition uint32 :: "int \<Rightarrow> int" where
  "uint32 x = uint (word_of_int x :: 32 word)"


definition maxInt64 :: int where
  "maxInt64 = 9223372036854775807"

definition incr :: "int \<Rightarrow> int" where
  "incr x = (if x = maxInt64 then - maxInt64 - 1 else x + 1)"

text \<open>Go's \<^verbatim>\<open>%\<close> truncates towards zero: the remainder has the sign of the dividend.\<close>

definition go_rem :: "int \<Rightarrow> int \<Rightarrow> int" where
  "go_rem a b = sgn a * (\<bar>a\<bar> mod \<bar>b\<bar>)"

section \<open>Blocks and transactions\<close>

text \<open>
  Modelled from the spec: the declarations of \<^verbatim>\<open>Block\<close>, \<^verbatim>\<open>Tx\<close>, \<^verbatim>\<open>TxIn\<close>,
  \<^verbatim>\<open>TxOut\<close> and \<^verbatim>\<open>OutPoint\<close> are not among the source files; the records hold the
  fields the loader reads (spec section 3). \<^verbatim>\<open>Hash()\<close> of a block or a transaction is a
  double SHA-256, which is not modelled: the records carry its value as \<open>BlockHash\<close> and
  \<open>TxHash\<close>. \<open>Witness\<close> is \<open>None\<close> for a nil witness and otherwise holds the bytes that
  \<^verbatim>\<open>BinWrite\<close> serialises it to.
\<close>

record OutPoint =
  Hash :: Uint256
  N :: "32 word"

record TxIn =
  PrevOut :: OutPoint
  ScriptSig :: "byte list"
  Sequence :: "32 word"
  Witness :: "byte list option"

record TxOut =
  Value :: int
  ScriptPubKey :: "byte list"

record Tx =
  TxVersion :: "32 word"
  TxIns :: "TxIn list"
  TxOuts :: "TxOut list"
  LockTime :: "32 word"
  TxHash :: Uint256

record Block =
  Version :: "32 word"
  PrevHash :: Uint256
  HashMerkleRoot :: Uint256
  Time :: "32 word"
  Bits :: "32 word"
  Nonce :: "32 word"
  Txs :: "Tx list"
  BlockHash :: Uint256

text \<open>
  \<^verbatim>\<open>type BlockInfo struct { *Block; Height, Status, FileN, FilePos int }\<close>
\<close>

record BlockInfo =
  Block :: Block
  Height :: int
  Status :: int
  FileN :: int
  FilePos :: int

section \<open>The records sent to the writers\<close>

text \<open>
  \<^verbatim>\<open>blockRec\<close>, \<^verbatim>\<open>txRec\<close>, \<^verbatim>\<open>txInRec\<close> and \<^verbatim>\<open>txOutRec\<close>, their fields prefixed
  (\<open>br_\<close>, \<open>tr_\<close>, \<open>ir_\<close>, \<open>or_\<close>). A \<^verbatim>\<open>sync chan bool\<close> field is \<open>True\<close> when the
  channel is not nil. A message on a writer's channel is \<open>Some\<close> record, or \<open>None\<close>
  for the nil that asks for a commit.

  \<^verbatim>\<open>txInRec.idCache\<close> is a pointer to the coordinator's cache, which the coordinator
  goes on changing after it has sent the record. The record type is therefore
  polymorphic in that field: a record on the coordinator's channel holds the pointer
  itself, \<open>IdCache\<close>; a record in the hands of the TxIn writer holds the cache as it is
  at the moment the writer follows the pointer, and \<open>follow c tr\<close> is the record \<open>tr\<close> of
  the channel as the writer handles it while the cache is \<open>c\<close>.
\<close>

datatype cache_ptr = IdCache

record blockRec =
  br_id :: int
  br_height :: int
  br_block :: Block
  br_hash :: Uint256
  br_orphan :: bool
  br_status :: int
  br_filen :: int
  br_filepos :: int
  br_sync :: bool

record txRec =
  tr_id :: int
  tr_blockId :: int
  tr_n :: int
  tr_tx :: Tx
  tr_hash :: Uint256
  tr_sync :: bool
  tr_dupe :: bool

record 'c txInRec =
  ir_txId :: int
  ir_n :: int
  ir_txIn :: TxIn
  ir_idCache :: 'c

record txOutRec =
  or_txId :: int
  or_n :: int
  or_txOut :: TxOut

definition follow :: "'c \<Rightarrow> cache_ptr txInRec \<Rightarrow> 'c txInRec" where
  "follow c tr = \<lparr>ir_txId = ir_txId tr, ir_n = ir_n tr, ir_txIn = ir_txIn tr, ir_idCache = c\<rparr>"

section \<open>The store\<close>

text \<open>
  The rows of the tables of \<^verbatim>\<open>createTables\<close>, columns prefixed by the table
  (\<open>b_\<close> blocks, \<open>t_\<close> txs, \<open>bt_\<close> block\_txs, \<open>i_\<close> txins, \<open>o_\<close> txouts). INT and BIGINT
  columns are \<open>int\<close>, BYTEA is a byte list, a nullable column is an \<open>option\<close>.
\<close>

record block_row =
  b_id :: int
  b_height :: int
  b_hash :: "byte list"
  b_version :: int
  b_prevhash :: "byte list"
  b_merkleroot :: "byte list"
  b_time :: int
  b_bits :: int
  b_nonce :: int
  b_orphan :: bool
  b_status :: int
  b_filen :: int
  b_filepos :: int

record tx_row =
  t_id :: int
  t_txid :: "byte list"
  t_version :: int
  t_locktime :: int

record block_tx_row =
  bt_block_id :: int
  bt_n :: int
  bt_tx_id :: int

record txin_row =
  i_tx_id :: int
  i_n :: int
  i_prevout_hash :: "byte list"
  i_prevout_n :: int
  i_scriptsig :: "byte list"
  i_sequence :: int
  i_witness :: "byte list option"
  i_prevout_tx_id :: "int option"

record txout_row =
  o_tx_id :: int
  o_n :: int
  o_value :: int
  o_scriptpubkey :: "byte list"

text \<open>
  A Go \<^verbatim>\<open>error\<close> is its message. The store a \<^verbatim>\<open>*sql.DB\<close> stands for holds the
  tables the loader reads back, and says how its calls end: \<open>Query_err\<close> is the error
  of \<^verbatim>\<open>db.Query\<close>, \<open>Rows_err\<close> the error that ends the iteration (\<^verbatim>\<open>rows.Next()\<close>
  is then false and \<^verbatim>\<open>rows.Err()\<close> returns it), \<open>Scan_err\<close> the error of
  \<^verbatim>\<open>rows.Scan\<close>, one triple for each of the two queries; \<open>Exec_tables\<close> is the error
  of executing the CREATE TABLE statements.
\<close>

datatype error = Err (Error: string)

record faults =
  Query_err :: "error option"
  Rows_err :: "error option"
  Scan_err :: "error option"

record db =
  blocks :: "block_row list"
  txs :: "tx_row list"
  blocks_faults :: faults
  txs_faults :: faults
  Exec_tables :: "error option"

text \<open>
  \<^verbatim>\<open>ORDER BY key DESC LIMIT 1\<close>: the rows sorted by descending key, cut after the first.
  SQL leaves the choice between rows of equal key open; the model takes the one that
  the sort puts first.
\<close>

definition order_by_desc :: "('r \<Rightarrow> int) \<Rightarrow> 'r list \<Rightarrow> 'r list" where
  "order_by_desc key rows = rev (sort_key key rows)"

definition limit :: "nat \<Rightarrow> 'r list \<Rightarrow> 'r list" where
  "limit k rows = take k rows"

text \<open>
  \<^verbatim>\<open>
  func getLastHashAndHeight(db *sql.DB) (int, int, []byte, error) {
      rows, err := db.Query("SELECT id, height, hash FROM blocks ORDER BY height DESC LIMIT 1")
      if err != nil { return 0, 0, nil, err }
      defer rows.Close()
      if rows.Next() {
          var ( id int; height int; hash []byte )
          if err := rows.Scan(&id, &height, &hash); err != nil { return 0, 0, nil, err }
          return id, height, hash, nil
      }
      // Initial height is -1, so that 1st block is height 0
      return 0, -1, nil, rows.Err()
  }
  \<close>
  The nil byte slice is the empty list.
\<close>

definition getLastHashAndHeight :: "db \<Rightarrow> int \<times> int \<times> byte list \<times> error option" where
  "getLastHashAndHeight d =
     (case Query_err (blocks_faults d) of
        Some err \<Rightarrow> (0, 0, [], Some err)
      | None \<Rightarrow>
          (case (Rows_err (blocks_faults d), limit 1 (order_by_desc b_height (blocks d))) of
             (None, r # _) \<Rightarrow>
               (case Scan_err (blocks_faults d) of
                  Some err \<Rightarrow> (0, 0, [], Some err)
                | None \<Rightarrow> (b_id r, b_height r, b_hash r, None))
           | (rows_err, _) \<Rightarrow> (0, - 1, [], rows_err)))"

text \<open>
  \<^verbatim>\<open>
  func getLastTxId(db *sql.DB) (int64, error) {
      rows, err := db.Query("SELECT id FROM txs ORDER BY id DESC LIMIT 1")
      if err != nil { return 0, err }
      defer rows.Close()
      if rows.Next() {
          var id int64
          if err := rows.Scan(&id); err != nil { return 0, err }
          return id, nil
      }
      return 0, rows.Err()
  }
  \<close>
\<close>

definition getLastTxId :: "db \<Rightarrow> int \<times> error option" where
  "getLastTxId d =
     (case Query_err (txs_faults d) of
        Some err \<Rightarrow> (0, Some err)
      | None \<Rightarrow>
          (case (Rows_err (txs_faults d), limit 1 (order_by_desc t_id (txs d))) of
             (None, r # _) \<Rightarrow>
               (case Scan_err (txs_faults d) of
                  Some err \<Rightarrow> (0, Some err)
                | None \<Rightarrow> (t_id r, None))
           | (rows_err, _) \<Rightarrow> (0, rows_err)))"

text \<open>
  \<^verbatim>\<open>func createTables(db *sql.DB) error { ...; _, err := db.Exec(sqlTables); return err }\<close>
\<close>

definition createTables :: "db \<Rightarrow> error option" where
  "createTables d = Exec_tables d"

section \<open>NewPGWriter and LastHeight\<close>

text \<open>\<^verbatim>\<open>strings.Contains(s, substr)\<close>: \<open>substr\<close> stands somewhere in \<open>s\<close>.\<close>

definition HasPrefix :: "string \<Rightarrow> string \<Rightarrow> bool" where
  "HasPrefix s p = (take (length p) s = p)"

fun Contains :: "string \<Rightarrow> string \<Rightarrow> bool" where
  "Contains [] substr = (substr = [])"
| "Contains (c # s) substr = (HasPrefix (c # s) substr \<or> Contains s substr)"

text \<open>
  \<^verbatim>\<open>PGWriter\<close> holds the store and the channels of the two goroutines that
  \<^verbatim>\<open>NewPGWriter\<close> starts. The model keeps the store and the arguments
  \<^verbatim>\<open>pgBlockWorker\<close> was started with, \<open>pw_deferredIndexes\<close> and \<open>pw_cacheSize\<close>:
  the block channel is the list of blocks the worker is later run on.
\<close>

record PGWriter =
  pw_db :: db
  pw_deferredIndexes :: bool
  pw_cacheSize :: int

text \<open>
  \<^verbatim>\<open>
  func NewPGWriter(connstr string, cacheSize int) (*PGWriter, error) {
      db, err := sql.Open("postgres", connstr)
      if err != nil { return nil, err }
      deferredIndexes := true
      if err := createTables(db); err != nil {
          if strings.Contains(err.Error(), "already exists") {
              // this is fine, cancel deferred index/constraint creation
              deferredIndexes = false
          } else {
              log.Printf(...)
              return nil, err
          }
      }
      bch := make(chan *BlockInfo, 64)
      go pgBlockWorker(bch, &wg, db, deferredIndexes, cacheSize)
      ...
      return &PGWriter{...}, nil
  }
  \<close>
  \<open>sql_Open\<close> is the outcome of \<^verbatim>\<open>sql.Open("postgres", connstr)\<close>.
\<close>

definition NewPGWriter :: "(string \<Rightarrow> error + db) \<Rightarrow> string \<Rightarrow> int \<Rightarrow> error + PGWriter" where
  "NewPGWriter sql_Open connstr cacheSize =
     (case sql_Open connstr of
        Inl err \<Rightarrow> Inl err
      | Inr d \<Rightarrow>
          (case createTables d of
             Some err \<Rightarrow>
               if Contains (Error err) ''already exists''
               then Inr \<lparr>pw_db = d, pw_deferredIndexes = False, pw_cacheSize = cacheSize\<rparr>
               else Inl err
           | None \<Rightarrow> Inr \<lparr>pw_db = d, pw_deferredIndexes = True, pw_cacheSize = cacheSize\<rparr>))"

text \<open>
  \<^verbatim>\<open>
  func (w *PGWriter) LastHeight() (int, error) {
      _, height, _, err := getLastHashAndHeight(w.db)
      return height, err
  }
  \<close>
\<close>

definition LastHeight :: "PGWriter \<Rightarrow> int \<times> error option" where
  "LastHeight w = (case getLastHashAndHeight (pw_db w) of (_, height, _, err) \<Rightarrow> (height, err))"

section \<open>The tx-id cache\<close>

text \<open>
  Modelled from the spec: \<^verbatim>\<open>txIdCache\<close>, \<^verbatim>\<open>newTxIdCache\<close> and its methods
  \<^verbatim>\<open>add\<close> and \<^verbatim>\<open>check\<close> are not among the source files. Spec section 4.3:
  a bounded map from tx hash to (id, remaining outputs) with least-recently-used
  eviction; \<^verbatim>\<open>add(hash, id, outputs)\<close> returns the stored id and bumps recency when
  the hash is present, and otherwise inserts the entry, possibly evicting the least
  recently used one, and returns \<open>id\<close>; \<^verbatim>\<open>check(hash)\<close> returns the stored id and bumps
  recency when the hash is present, and nil otherwise; \<open>dups\<close>, \<open>evic\<close>, \<open>hits\<close> and
  \<open>miss\<close> count these events. \<open>entries\<close> lists the entries from the most recently to
  the least recently used.

  The coordinator and the writers below take the two methods as parameters \<open>add\<close> and
  \<open>check\<close>, so what is proved of them holds of any cache; this one is used where a
  claim depends on what the cache answers.
\<close>

record txIdCache =
  entries :: "(Uint256 \<times> int \<times> int) list"
  sz :: int
  hits :: int
  miss :: int
  cols :: int
  dups :: int
  evic :: int

definition newTxIdCache :: "int \<Rightarrow> txIdCache" where
  "newTxIdCache cacheSize =
     \<lparr>entries = [], sz = cacheSize, hits = 0, miss = 0, cols = 0, dups = 0, evic = 0\<rparr>"

definition bump :: "Uint256 \<Rightarrow> int \<times> int \<Rightarrow> (Uint256 \<times> int \<times> int) list \<Rightarrow> (Uint256 \<times> int \<times> int) list" where
  "bump hash v es = (hash, v) # filter (\<lambda>e. fst e \<noteq> hash) es"

definition txIdCache_add :: "txIdCache \<Rightarrow> Uint256 \<Rightarrow> int \<Rightarrow> int \<Rightarrow> int \<times> txIdCache" where
  "txIdCache_add c hash txid' outputs =
     (case map_of (entries c) hash of
        Some v \<Rightarrow> (fst v, c\<lparr>entries := bump hash v (entries c), dups := incr (dups c)\<rparr>)
      | None \<Rightarrow>
          (let es = (hash, (txid', outputs)) # entries c
           in if sz c < int (length es)
              then (txid', c\<lparr>entries := butlast es, evic := incr (evic c)\<rparr>)
              else (txid', c\<lparr>entries := es\<rparr>)))"

definition txIdCache_check :: "txIdCache \<Rightarrow> Uint256 \<Rightarrow> int option \<times> txIdCache" where
  "txIdCache_check c hash =
     (case map_of (entries c) hash of
        Some v \<Rightarrow> (Some (fst v), c\<lparr>entries := bump hash v (entries c), hits := incr (hits c)\<rparr>)
      | None \<Rightarrow> (None, c\<lparr>miss := incr (miss c)\<rparr>))"

section \<open>The coordinator, pgBlockWorker\<close>

text \<open>
  The state of the coordinator: its counters, the cache, and for each writer channel
  the messages sent on it so far, the oldest first.
\<close>

record 'c worker =
  bid :: int
  txid :: int
  txcnt :: int
  idCache :: 'c
  blockCh :: "blockRec option list"
  txCh :: "txRec option list"
  txInCh :: "cache_ptr txInRec option list"
  txOutCh :: "txOutRec option list"

text \<open>
  The TxIn writer runs beside the coordinator and calls \<^verbatim>\<open>check\<close> on the same cache.
  \<open>checks check c hs\<close> is the cache after the calls for the hashes \<open>hs\<close>; the parameter
  \<open>sched\<close> of the coordinator gives, for the tx id being minted, the hashes the TxIn
  writer has checked since the coordinator's previous \<^verbatim>\<open>add\<close>.
\<close>

fun checks :: "('c \<Rightarrow> Uint256 \<Rightarrow> int option \<times> 'c) \<Rightarrow> 'c \<Rightarrow> Uint256 list \<Rightarrow> 'c" where
  "checks check c [] = c"
| "checks check c (h # hs) = checks check (snd (check c h)) hs"

text \<open>
  \<^verbatim>\<open>for n, txin := range tx.TxIns { txInCh <- &txInRec{txId: txid, n: n, txIn: txin, idCache: idCache} }\<close>
  and the same loop over \<^verbatim>\<open>tx.TxOuts\<close>.
\<close>

definition txInRecs :: "int \<Rightarrow> TxIn list \<Rightarrow> cache_ptr txInRec option list" where
  "txInRecs txid' ins =
     map (\<lambda>(n, txin). Some \<lparr>ir_txId = txid', ir_n = int n, ir_txIn = txin,
                             ir_idCache = IdCache\<rparr>)
         (enumerate 0 ins)"

definition txOutRecs :: "int \<Rightarrow> TxOut list \<Rightarrow> txOutRec option list" where
  "txOutRecs txid' outs =
     map (\<lambda>(n, txout). Some \<lparr>or_txId = txid', or_n = int n, or_txOut = txout\<rparr>)
         (enumerate 0 outs)"

text \<open>
  The body of \<^verbatim>\<open>for n, tx := range bi.Txs\<close>, for the block id \<open>bid'\<close>:
  \<^verbatim>\<open>
      txid++
      txcnt++
      hash := tx.Hash()
      recentId := idCache.add(hash, txid, len(tx.TxOuts))
      txCh <- &txRec{id: recentId, n: n, blockId: bid, tx: tx, hash: hash,
                     sync: syncCh, dupe: recentId != txid}
      if syncCh != nil { <-syncCh }
      if recentId != txid { continue }
      for n, txin := range tx.TxIns { txInCh <- ... }
      for n, txout := range tx.TxOuts { txOutCh <- ... }
  \<close>
\<close>

definition tx_body ::
  "('c \<Rightarrow> Uint256 \<Rightarrow> int \<Rightarrow> int \<Rightarrow> int \<times> 'c) \<Rightarrow> ('c \<Rightarrow> Uint256 \<Rightarrow> int option \<times> 'c) \<Rightarrow>
   (int \<Rightarrow> Uint256 list) \<Rightarrow> bool \<Rightarrow> int \<Rightarrow> nat \<Rightarrow> Tx \<Rightarrow> 'c worker \<Rightarrow> 'c worker" where
  "tx_body add check sched syncCh bid' n tx w =
     (let txid' = incr (txid w);
          txcnt' = incr (txcnt w);
          hash = TxHash tx;
          (recentId, c) = add (checks check (idCache w) (sched txid')) hash txid'
                              (int (length (TxOuts tx)));
          w1 = w\<lparr>txid := txid', txcnt := txcnt', idCache := c,
                 txCh := txCh w @ [Some \<lparr>tr_id = recentId, tr_blockId = bid', tr_n = int n,
                                         tr_tx = tx, tr_hash = hash, tr_sync = syncCh,
                                         tr_dupe = (recentId \<noteq> txid')\<rparr>]\<rparr>
      in if recentId \<noteq> txid' then w1
         else w1\<lparr>txInCh := txInCh w1 @ txInRecs txid' (TxIns tx),
                 txOutCh := txOutCh w1 @ txOutRecs txid' (TxOuts tx)\<rparr>)"

text \<open>The answer of the cache to the \<^verbatim>\<open>add\<close> of one step, and the cache it leaves.\<close>

definition add_result ::
  "('c \<Rightarrow> Uint256 \<Rightarrow> int \<Rightarrow> int \<Rightarrow> int \<times> 'c) \<Rightarrow> ('c \<Rightarrow> Uint256 \<Rightarrow> int option \<times> 'c) \<Rightarrow>
   (int \<Rightarrow> Uint256 list) \<Rightarrow> Tx \<Rightarrow> 'c worker \<Rightarrow> int \<times> 'c" where
  "add_result add check sched tx w =
     add (checks check (idCache w) (sched (incr (txid w)))) (TxHash tx) (incr (txid w))
         (int (length (TxOuts tx)))"

fun txs_loop ::
  "('c \<Rightarrow> Uint256 \<Rightarrow> int \<Rightarrow> int \<Rightarrow> int \<times> 'c) \<Rightarrow> ('c \<Rightarrow> Uint256 \<Rightarrow> int option \<times> 'c) \<Rightarrow>
   (int \<Rightarrow> Uint256 list) \<Rightarrow> bool \<Rightarrow> int \<Rightarrow> nat \<Rightarrow> Tx list \<Rightarrow> 'c worker \<Rightarrow> 'c worker" where
  "txs_loop add check sched syncCh bid' n [] w = w"
| "txs_loop add check sched syncCh bid' n (tx # rest) w =
     txs_loop add check sched syncCh bid' (Suc n) rest
       (tx_body add check sched syncCh bid' n tx w)"

text \<open>
  The end of the body of \<^verbatim>\<open>for bi := range ch\<close>:
  \<^verbatim>\<open>
      if !deferredIndexes {
          // commit after every block; blocks and txs are already commited
          txInCh <- nil
          txOutCh <- nil
      } else if bid%50 == 0 {
          // commit every N blocks
          blockCh <- nil
          txCh <- nil
          txInCh <- nil
          txOutCh <- nil
      }
  \<close>
\<close>

definition commit_marks :: "bool \<Rightarrow> 'c worker \<Rightarrow> 'c worker" where
  "commit_marks deferredIndexes w =
     (if \<not> deferredIndexes
      then w\<lparr>txInCh := txInCh w @ [None], txOutCh := txOutCh w @ [None]\<rparr>
      else if go_rem (bid w) 50 = 0
      then w\<lparr>blockCh := blockCh w @ [None], txCh := txCh w @ [None],
             txInCh := txInCh w @ [None], txOutCh := txOutCh w @ [None]\<rparr>
      else w)"

text \<open>
  The body of \<^verbatim>\<open>for bi := range ch\<close>. \<^verbatim>\<open>syncCh\<close> is not nil exactly when
  \<^verbatim>\<open>deferredIndexes\<close> is false; the coordinator then waits on it after the block
  record and after each tx record, which sends nothing. The progress log is left out.
  \<^verbatim>\<open>
      bid++
      hash := bi.Hash()
      blockCh <- &blockRec{id: bid, height: bi.Height, block: bi.Block, hash: hash,
                           status: bi.Status, filen: bi.FileN, filepos: bi.FilePos, sync: syncCh}
      if syncCh != nil { <-syncCh }
      for n, tx := range bi.Txs { ... }
      ...
  \<close>
  \<^verbatim>\<open>orphan\<close> is not set: it has Go's zero value, false.
\<close>

definition block_body ::
  "('c \<Rightarrow> Uint256 \<Rightarrow> int \<Rightarrow> int \<Rightarrow> int \<times> 'c) \<Rightarrow> ('c \<Rightarrow> Uint256 \<Rightarrow> int option \<times> 'c) \<Rightarrow>
   (int \<Rightarrow> Uint256 list) \<Rightarrow> bool \<Rightarrow> BlockInfo \<Rightarrow> 'c worker \<Rightarrow> 'c worker" where
  "block_body add check sched deferredIndexes bi w =
     (let bid' = incr (bid w);
          hash = BlockHash (Block bi);
          syncCh = (\<not> deferredIndexes);
          w1 = w\<lparr>bid := bid',
                 blockCh := blockCh w @ [Some \<lparr>br_id = bid', br_height = Height bi,
                                               br_block = Block bi, br_hash = hash,
                                               br_orphan = False, br_status = Status bi,
                                               br_filen = FileN bi, br_filepos = FilePos bi,
                                               br_sync = syncCh\<rparr>]\<rparr>
      in commit_marks deferredIndexes
           (txs_loop add check sched syncCh bid' 0 (Txs (Block bi)) w1))"

fun blocks_loop ::
  "('c \<Rightarrow> Uint256 \<Rightarrow> int \<Rightarrow> int \<Rightarrow> int \<times> 'c) \<Rightarrow> ('c \<Rightarrow> Uint256 \<Rightarrow> int option \<times> 'c) \<Rightarrow>
   (int \<Rightarrow> Uint256 list) \<Rightarrow> bool \<Rightarrow> BlockInfo list \<Rightarrow> 'c worker \<Rightarrow> 'c worker" where
  "blocks_loop add check sched deferredIndexes [] w = w"
| "blocks_loop add check sched deferredIndexes (bi # ch) w =
     blocks_loop add check sched deferredIndexes ch
       (block_body add check sched deferredIndexes bi w)"

text \<open>
  Skip mode. The result is the rest of the channel and the number of blocks counted.
  \<^verbatim>\<open>
      skip, last := 0, time.Now()
      for b := range ch {
          hash := b.Hash()
          if bytes.Compare(bhash, hash[:]) == 0 {
              break
          } else {
              skip++
              ...
          }
      }
  \<close>
\<close>

fun skip_loop :: "byte list \<Rightarrow> BlockInfo list \<Rightarrow> int \<Rightarrow> BlockInfo list \<times> int" where
  "skip_loop bhash [] skip = ([], skip)"
| "skip_loop bhash (b # ch) skip =
     (if bhash = BlockHash (Block b) then (ch, skip) else skip_loop bhash ch (incr skip))"

text \<open>
  \<^verbatim>\<open>pgBlockWorker(ch, wg, db, deferredIndexes, cacheSize)\<close> up to the point where it
  closes the writer channels: the resume queries, skip mode, the new cache and the main
  loop. \<open>ch\<close> is the sequence of blocks received until the channel is closed. A resume
  error ends the worker before any writer is started (\<open>Inl\<close>). The index and constraint
  statements that follow the loop are SQL run by the store and are not part of the model.
  \<^verbatim>\<open>
      bid, _, bhash, err := getLastHashAndHeight(db)
      if err != nil { log.Printf(...); return }
      txid, err := getLastTxId(db)
      if err != nil { log.Printf(...); return }
      ...
      if len(bhash) > 0 { ... skip ... }
      idCache := newTxIdCache(cacheSize)
      ...
      txcnt, last := 0, time.Now()
      for bi := range ch { ... }
  \<close>
\<close>

definition start_worker :: "int \<Rightarrow> int \<Rightarrow> 'c \<Rightarrow> 'c worker" where
  "start_worker bid0 txid0 c =
     \<lparr>bid = bid0, txid = txid0, txcnt = 0, idCache = c,
      blockCh = [], txCh = [], txInCh = [], txOutCh = []\<rparr>"

definition pgBlockWorker ::
  "('c \<Rightarrow> Uint256 \<Rightarrow> int \<Rightarrow> int \<Rightarrow> int \<times> 'c) \<Rightarrow> ('c \<Rightarrow> Uint256 \<Rightarrow> int option \<times> 'c) \<Rightarrow>
   (int \<Rightarrow> 'c) \<Rightarrow> (int \<Rightarrow> Uint256 list) \<Rightarrow>
   BlockInfo list \<Rightarrow> db \<Rightarrow> bool \<Rightarrow> int \<Rightarrow> error + 'c worker" where
  "pgBlockWorker add check new sched ch d deferredIndexes cacheSize =
     (case getLastHashAndHeight d of
        (bid0, _, bhash, Some err) \<Rightarrow> Inl err
      | (bid0, _, bhash, None) \<Rightarrow>
          (case getLastTxId d of
             (txid0, Some err) \<Rightarrow> Inl err
           | (txid0, None) \<Rightarrow>
               (let ch' = (if 0 < length bhash then fst (skip_loop bhash ch 0) else ch)
                in Inr (blocks_loop add check sched deferredIndexes ch'
                          (start_worker bid0 txid0 (new cacheSize))))))"

text \<open>The records among the messages of a channel, and the number of nil messages.\<close>

definition recs :: "'a option list \<Rightarrow> 'a list" where
  "recs ms = concat (map (\<lambda>m. case m of None \<Rightarrow> [] | Some r \<Rightarrow> [r]) ms)"

definition nils :: "'a option list \<Rightarrow> nat" where
  "nils ms = length (filter (\<lambda>m. m = None) ms)"

text \<open>
  The id discipline of a run that started with the counters \<open>bid0\<close> and \<open>txid0\<close>: every
  block record and every tx record has used up one value of its counter, the \<open>k\<close>-th
  block record (counting from 0) carries the id \<open>bid0 + k + 1\<close>, and the \<open>k\<close>-th tx
  record carries \<open>txid0 + k + 1\<close> unless it is flagged as a duplicate.
\<close>

definition ids_inv :: "int \<Rightarrow> int \<Rightarrow> 'c worker \<Rightarrow> bool" where
  "ids_inv bid0 txid0 w \<longleftrightarrow>
     bid w = bid0 + int (length (recs (blockCh w))) \<and>
     txid w = txid0 + int (length (recs (txCh w))) \<and>
     (\<forall>k<length (recs (blockCh w)). br_id (recs (blockCh w) ! k) = bid0 + int k + 1) \<and>
     (\<forall>k<length (recs (txCh w)).
        \<not> tr_dupe (recs (txCh w) ! k) \<longrightarrow> tr_id (recs (txCh w) ! k) = txid0 + int k + 1)"

text \<open>The transactions of a sequence of blocks, in the order in which they are ingested.\<close>

definition all_txs :: "BlockInfo list \<Rightarrow> Tx list" where
  "all_txs ch = concat (map (\<lambda>bi. Txs (Block bi)) ch)"



section \<open>The writers\<close>

text \<open>
  A writer owns a COPY stream on its table. What it does is the sequence of calls it
  makes on the stream: \<open>Begin\<close> for \<^verbatim>\<open>begin(db, table, cols)\<close>, \<open>Exec r\<close> for
  \<^verbatim>\<open>stmt.Exec(...)\<close> with the column values \<open>r\<close>, \<open>Commit\<close> for
  \<^verbatim>\<open>commit(stmt, txn)\<close>. Each writer logs the error of a call and goes on, so the
  calls do not depend on how the store answers; the model is of the runs in which
  \<^verbatim>\<open>begin\<close> returns a statement.
\<close>

datatype 'r stream_op = Begin | Exec 'r | Commit

definition rows_of :: "'r stream_op list \<Rightarrow> 'r list" where
  "rows_of ops = concat (map (\<lambda>op. case op of Exec r \<Rightarrow> [r] | _ \<Rightarrow> []) ops)"

text \<open>
  \<^verbatim>\<open>
      b := br.block
      _, err = stmt.Exec(br.id, br.height, br.hash[:], int32(b.Version), b.PrevHash[:],
          b.HashMerkleRoot[:], int32(b.Time), int32(b.Bits), int32(b.Nonce), br.orphan,
          int32(br.status), int32(br.filen), int32(br.filepos))
  \<close>
\<close>

definition block_exec :: "blockRec \<Rightarrow> block_row" where
  "block_exec br =
     (let b = br_block br
      in \<lparr>b_id = br_id br, b_height = br_height br, b_hash = br_hash br,
          b_version = int32 (uint (Version b)), b_prevhash = PrevHash b,
          b_merkleroot = HashMerkleRoot b, b_time = int32 (uint (Time b)),
          b_bits = int32 (uint (Bits b)), b_nonce = int32 (uint (Nonce b)),
          b_orphan = br_orphan br, b_status = int32 (br_status br),
          b_filen = int32 (br_filen br), b_filepos = int32 (br_filepos br)\<rparr>)"

text \<open>
  \<^verbatim>\<open>pgBlockWriter\<close>: a nil message commits the stream and begins a new one; a record
  is appended, and when it carries a sync channel the stream is committed and begun
  anew before the confirmation is sent; when the channel is closed the stream is
  committed.
\<close>

fun pgBlockWriter_loop :: "blockRec option list \<Rightarrow> block_row stream_op list" where
  "pgBlockWriter_loop [] = [Commit]"
| "pgBlockWriter_loop (None # c) = Commit # Begin # pgBlockWriter_loop c"
| "pgBlockWriter_loop (Some br # c) =
     Exec (block_exec br) # (if br_sync br then [Commit, Begin] else []) @ pgBlockWriter_loop c"

definition pgBlockWriter :: "blockRec option list \<Rightarrow> block_row stream_op list" where
  "pgBlockWriter c = Begin # pgBlockWriter_loop c"

text \<open>
  \<^verbatim>\<open>pgTxWriter\<close> has two streams, on \<^verbatim>\<open>txs\<close> (\<open>Inl\<close>) and on \<^verbatim>\<open>block_txs\<close> (\<open>Inr\<close>).
  \<^verbatim>\<open>
      if !tr.dupe {
          t := tr.tx
          _, err = stmt.Exec(tr.id, tr.hash[:], int32(t.Version), int32(t.LockTime))
          ...
      }
      _, err = bstmt.Exec(tr.blockId, tr.n, tr.id)
      ...
      if tr.sync != nil { commit(stmt, txn); commit(bstmt, btxn); begin ...; begin ...; tr.sync <- true }
  \<close>
\<close>

definition tx_exec :: "txRec \<Rightarrow> tx_row" where
  "tx_exec tr =
     (let t = tr_tx tr
      in \<lparr>t_id = tr_id tr, t_txid = tr_hash tr, t_version = int32 (uint (TxVersion t)),
          t_locktime = int32 (uint (LockTime t))\<rparr>)"

definition block_tx_exec :: "txRec \<Rightarrow> block_tx_row" where
  "block_tx_exec tr = \<lparr>bt_block_id = tr_blockId tr, bt_n = tr_n tr, bt_tx_id = tr_id tr\<rparr>"

definition pgTxWriter_rec :: "txRec \<Rightarrow> (tx_row stream_op + block_tx_row stream_op) list" where
  "pgTxWriter_rec tr =
     (if \<not> tr_dupe tr then [Inl (Exec (tx_exec tr))] else [])
     @ [Inr (Exec (block_tx_exec tr))]
     @ (if tr_sync tr then [Inl Commit, Inr Commit, Inl Begin, Inr Begin] else [])"

fun pgTxWriter_loop :: "txRec option list \<Rightarrow> (tx_row stream_op + block_tx_row stream_op) list" where
  "pgTxWriter_loop [] = [Inl Commit, Inr Commit]"
| "pgTxWriter_loop (None # c) = [Inl Commit, Inr Commit, Inl Begin, Inr Begin] @ pgTxWriter_loop c"
| "pgTxWriter_loop (Some tr # c) = pgTxWriter_rec tr @ pgTxWriter_loop c"

definition pgTxWriter :: "txRec option list \<Rightarrow> (tx_row stream_op + block_tx_row stream_op) list" where
  "pgTxWriter c = [Inl Begin, Inr Begin] @ pgTxWriter_loop c"

definition txs_stream :: "('a + 'b) list \<Rightarrow> 'a list" where
  "txs_stream ops = concat (map (\<lambda>op. case op of Inl a \<Rightarrow> [a] | Inr _ \<Rightarrow> []) ops)"

definition block_txs_stream :: "('a + 'b) list \<Rightarrow> 'b list" where
  "block_txs_stream ops = concat (map (\<lambda>op. case op of Inl _ \<Rightarrow> [] | Inr b \<Rightarrow> [b]) ops)"

text \<open>
  \<^verbatim>\<open>pgTxInWriter\<close>:
  \<^verbatim>\<open>
      t := tr.txIn
      var wb interface{}
      if t.Witness != nil { var b bytes.Buffer; BinWrite(&t.Witness, &b); wb = b.Bytes() }
      var prevOutTxId *int64 = nil
      if t.PrevOut.N != 0xffffffff { // coinbase
          prevOutTxId = tr.idCache.check(t.PrevOut.Hash)
      }
      _, err = stmt.Exec(tr.txId, tr.n, t.PrevOut.Hash[:], int32(t.PrevOut.N), t.ScriptSig,
          int32(t.Sequence), wb, prevOutTxId)
  \<close>
\<close>

definition txin_exec :: "('c \<Rightarrow> Uint256 \<Rightarrow> int option \<times> 'c) \<Rightarrow> 'c txInRec \<Rightarrow> txin_row" where
  "txin_exec check tr =
     (let t = ir_txIn tr;
          wb = Witness t;
          prevOutTxId = (if N (PrevOut t) \<noteq> 0xffffffff
                         then fst (check (ir_idCache tr) (Hash (PrevOut t)))
                         else None)
      in \<lparr>i_tx_id = ir_txId tr, i_n = ir_n tr, i_prevout_hash = Hash (PrevOut t),
          i_prevout_n = int32 (uint (N (PrevOut t))), i_scriptsig = ScriptSig t,
          i_sequence = int32 (uint (Sequence t)), i_witness = wb,
          i_prevout_tx_id = prevOutTxId\<rparr>)"

fun pgTxInWriter_loop ::
  "('c \<Rightarrow> Uint256 \<Rightarrow> int option \<times> 'c) \<Rightarrow> 'c txInRec option list \<Rightarrow> txin_row stream_op list" where
  "pgTxInWriter_loop check [] = [Commit]"
| "pgTxInWriter_loop check (None # c) = Commit # Begin # pgTxInWriter_loop check c"
| "pgTxInWriter_loop check (Some tr # c) = Exec (txin_exec check tr) # pgTxInWriter_loop check c"

definition pgTxInWriter ::
  "('c \<Rightarrow> Uint256 \<Rightarrow> int option \<times> 'c) \<Rightarrow> 'c txInRec option list \<Rightarrow> txin_row stream_op list" where
  "pgTxInWriter check c = Begin # pgTxInWriter_loop check c"

text \<open>
  \<^verbatim>\<open>pgTxOutWriter\<close>: \<^verbatim>\<open>stmt.Exec(tr.txId, tr.n, t.Value, t.ScriptPubKey)\<close>.
\<close>

definition txout_exec :: "txOutRec \<Rightarrow> txout_row" where
  "txout_exec tr =
     (let t = or_txOut tr
      in \<lparr>o_tx_id = or_txId tr, o_n = or_n tr, o_value = Value t,
          o_scriptpubkey = ScriptPubKey t\<rparr>)"

fun pgTxOutWriter_loop :: "txOutRec option list \<Rightarrow> txout_row stream_op list" where
  "pgTxOutWriter_loop [] = [Commit]"
| "pgTxOutWriter_loop (None # c) = Commit # Begin # pgTxOutWriter_loop c"
| "pgTxOutWriter_loop (Some tr # c) = Exec (txout_exec tr) # pgTxOutWriter_loop c"

definition pgTxOutWriter :: "txOutRec option list \<Rightarrow> txout_row stream_op list" where
  "pgTxOutWriter c = Begin # pgTxOutWriter_loop c"

section \<open>Sample inputs\<close>

text \<open>
  Small blocks and transactions on which the theorems below are evaluated. Hashes are
  32 bytes, told apart by their first byte.
\<close>

definition mk_hash :: "byte \<Rightarrow> Uint256" where
  "mk_hash k = k # replicate 31 0"

definition coinbase_in :: TxIn where
  "coinbase_in = \<lparr>PrevOut = \<lparr>Hash = replicate 32 0, N = 0xffffffff\<rparr>, ScriptSig = [4],
                   Sequence = 0xffffffff, Witness = None\<rparr>"

definition spend_in :: "byte \<Rightarrow> TxIn" where
  "spend_in j = \<lparr>PrevOut = \<lparr>Hash = mk_hash j, N = 0\<rparr>, ScriptSig = [0x47],
                 Sequence = 0xffffffff, Witness = None\<rparr>"

definition out50 :: TxOut where
  "out50 = \<lparr>Value = 5000000000, ScriptPubKey = [0x41]\<rparr>"

definition coinbase_tx :: "byte \<Rightarrow> Tx" where
  "coinbase_tx k = \<lparr>TxVersion = 1, TxIns = [coinbase_in], TxOuts = [out50], LockTime = 0,
                    TxHash = mk_hash k\<rparr>"

definition spend_tx :: "byte \<Rightarrow> byte \<Rightarrow> Tx" where
  "spend_tx k j = \<lparr>TxVersion = 1, TxIns = [spend_in j], TxOuts = [out50], LockTime = 0,
                   TxHash = mk_hash k\<rparr>"

definition mk_block :: "byte \<Rightarrow> byte \<Rightarrow> Tx list \<Rightarrow> Block" where
  "mk_block k prev ts = \<lparr>Version = 1, PrevHash = mk_hash prev, HashMerkleRoot = mk_hash k,
                         Time = 1231006505, Bits = 0x1d00ffff, Nonce = 0x7c2bac1d,
                         Txs = ts, BlockHash = mk_hash k\<rparr>"

definition mk_info :: "int \<Rightarrow> Block \<Rightarrow> BlockInfo" where
  "mk_info h b = \<lparr>Block = b, Height = h, Status = 3, FileN = 0, FilePos = 8\<rparr>"



text \<open>
  A store as scenario 6 of the spec leaves it: the chain A0 .. A3 (hashes 10 .. 13, ids
  1 .. 4) and then the side branch A2' (hash 22, id 5) at height 2, each block with one
  coinbase tx.
\<close>

definition mk_block_row :: "int \<Rightarrow> int \<Rightarrow> byte \<Rightarrow> byte \<Rightarrow> block_row" where
  "mk_block_row i h k prev =
     \<lparr>b_id = i, b_height = h, b_hash = mk_hash k, b_version = 1, b_prevhash = mk_hash prev,
      b_merkleroot = mk_hash k, b_time = 1231006505, b_bits = 486604799,
      b_nonce = 2083236893, b_orphan = False, b_status = 3, b_filen = 0, b_filepos = 8\<rparr>"

definition mk_tx_row :: "int \<Rightarrow> byte \<Rightarrow> tx_row" where
  "mk_tx_row i k = \<lparr>t_id = i, t_txid = mk_hash k, t_version = 1, t_locktime = 0\<rparr>"

definition no_faults :: faults where
  "no_faults = \<lparr>Query_err = None, Rows_err = None, Scan_err = None\<rparr>"

definition empty_store :: db where
  "empty_store = \<lparr>blocks = [], txs = [], blocks_faults = no_faults, txs_faults = no_faults,
                   Exec_tables = None\<rparr>"

definition already_exists :: error where
  "already_exists = Err ''pq: relation blocks already exists''"

definition side_branch_store :: db where
  "side_branch_store =
     \<lparr>blocks = [mk_block_row 1 0 10 0, mk_block_row 2 1 11 10, mk_block_row 3 2 12 11,
                mk_block_row 4 3 13 12, mk_block_row 5 2 22 11],
      txs = [mk_tx_row 1 110, mk_tx_row 2 111, mk_tx_row 3 112, mk_tx_row 4 113,
             mk_tx_row 5 122],
      blocks_faults = no_faults, txs_faults = no_faults,
      Exec_tables = Some already_exists\<rparr>"

definition connection_lost :: error where
  "connection_lost = Err ''driver: bad connection''"

definition failing_store :: db where
  "failing_store =
     empty_store\<lparr>blocks_faults := no_faults\<lparr>Query_err := Some connection_lost\<rparr>,
                 Exec_tables := Some (Err ''pq: permission denied for schema public'')\<rparr>"

definition sample_writer :: "db \<Rightarrow> PGWriter" where
  "sample_writer d = \<lparr>pw_db = d, pw_deferredIndexes = False, pw_cacheSize = 10\<rparr>"

definition sample_Open :: "string \<Rightarrow> error + db" where
  "sample_Open connstr =
     (if connstr = ''dbname=fresh'' then Inr empty_store
      else if connstr = ''dbname=loaded'' then Inr side_branch_store
      else if connstr = ''dbname=readonly'' then Inr failing_store
      else Inl (Err ''missing database name''))"

text \<open>A schedule in which the TxIn writer makes no check between two adds.\<close>

definition no_checks :: "int \<Rightarrow> Uint256 list" where
  "no_checks t = []"

text \<open>Blocks with one coinbase tx each: block \<open>k\<close> has hash \<open>k\<close> and its tx hash \<open>100 + k\<close>.\<close>

definition simple_block :: "int \<Rightarrow> byte \<Rightarrow> byte \<Rightarrow> BlockInfo" where
  "simple_block h k prev = mk_info h (mk_block k prev [coinbase_tx (100 + k)])"

text \<open>A store holding the chain A0, A1 (ids 1 and 2), and the chain A0, A1, A2 as input.\<close>

definition linear_store :: db where
  "linear_store =
     \<lparr>blocks = [mk_block_row 1 0 10 0, mk_block_row 2 1 11 10],
      txs = [mk_tx_row 1 110, mk_tx_row 2 111],
      blocks_faults = no_faults, txs_faults = no_faults,
      Exec_tables = Some already_exists\<rparr>"

definition chain_A0_A2 :: "BlockInfo list" where
  "chain_A0_A2 = [simple_block 0 10 0, simple_block 1 11 10, simple_block 2 12 11]"

text \<open>
  Two blocks that list the same transaction: block 1 holds the tx with hash 101, block 2
  holds it again, followed by a tx with hash 102 that spends it.
\<close>

definition dup_stream :: "BlockInfo list" where
  "dup_stream = [mk_info 0 (mk_block 1 0 [coinbase_tx 101]),
                 mk_info 1 (mk_block 2 1 [coinbase_tx 101, spend_tx 102 101])]"

text \<open>
  A cache that holds the tx with hash 101 under id 1, and three messages for the TxIn
  writer: a coinbase input, an input spending tx 101 and an input spending an unknown tx.
\<close>

definition cache_101 :: txIdCache where
  "cache_101 = snd (txIdCache_add (newTxIdCache 10) (mk_hash 101) 1 1)"

definition txin_msgs :: "txIdCache txInRec option list" where
  "txin_msgs =
     [Some \<lparr>ir_txId = 1, ir_n = 0, ir_txIn = coinbase_in, ir_idCache = cache_101\<rparr>,
      Some \<lparr>ir_txId = 2, ir_n = 0, ir_txIn = spend_in 101, ir_idCache = cache_101\<rparr>,
      None,
      Some \<lparr>ir_txId = 3, ir_n = 0, ir_txIn = spend_in 77, ir_idCache = cache_101\<rparr>]"



text \<open>
  Three blocks of one transaction each, the third repeating the transaction of the
  first; with a cache of capacity 1 the second transaction evicts the first.
\<close>

definition evict_stream :: "BlockInfo list" where
  "evict_stream = [mk_info 0 (mk_block 1 0 [coinbase_tx 101]),
                   mk_info 1 (mk_block 2 1 [coinbase_tx 102]),
                   mk_info 2 (mk_block 3 2 [coinbase_tx 101])]"


section \<open>Uint256.String\<close>

lemma String_loop_unfold:
  "i \<le> 32 \<Longrightarrow>
   String_loop u i s = s @ concat (map (\<lambda>k. Sprintf_02x (u ! (31 - k))) [i..<32])"
proof (induction u i s rule: String_loop.induct)
  case (1 u i s)
  show ?case
  proof (cases "i < 32")
    case True
    then have "[i..<32] = i # [i + 1..<32]"
      by (simp add: upt_conv_Cons)
    with True "1.IH" show ?thesis
      by (subst String_loop.simps) simp
  next
    case False
    with "1.prems" have "i = 32" by simp
    then show ?thesis
      by (subst String_loop.simps) simp
  qed
qed

lemma rev_as_index_map:
  "length u = n \<Longrightarrow> map (\<lambda>k. u ! (n - 1 - k)) [0..<n] = rev u"
  by (rule nth_equalityI) (auto simp: rev_nth)

lemma String_concat_rev:
  assumes "length u = 32"
  shows "String u = concat (map Sprintf_02x (rev u))"
proof -
  have "map (\<lambda>k. u ! (32 - 1 - k)) [0..<32] = rev u"
    using assms by (rule rev_as_index_map)
  then have r: "map (\<lambda>k. u ! (31 - k)) [0..<32] = rev u"
    by simp
  have "map (\<lambda>k. Sprintf_02x (u ! (31 - k))) [0..<32]
        = map Sprintf_02x (map (\<lambda>k. u ! (31 - k)) [0..<32])"
    unfolding map_map o_def ..
  with r have "map (\<lambda>k. Sprintf_02x (u ! (31 - k))) [0..<32] = map Sprintf_02x (rev u)"
    by (simp only:)
  moreover have "String u = concat (map (\<lambda>k. Sprintf_02x (u ! (31 - k))) [0..<32])"
    unfolding String_def by (subst String_loop_unfold) simp_all
  ultimately show ?thesis
    by (simp only:)
qed

lemma below16: "d < 16 \<Longrightarrow> d \<in> {0, 1, 2, 3, 4, 5, 6, 7, 8, 9, 10, 11, 12, 13, 14, 15 :: nat}"
  by simp arith

lemma hexdigit_in_alphabet: "d < 16 \<Longrightarrow> hexdigit d \<in> set hexdigits"
  by (drule below16) (auto simp: hexdigit_def hexdigits_def)

lemma hexval_hexdigit: "d < 16 \<Longrightarrow> hexval (hexdigit d) = d"
  by (drule below16) (auto simp: hexval_def hexdigit_def hexdigits_def)

lemma unat_byte_div16: "unat (b :: byte) div 16 < 16"
proof -
  have "unat b < 2 ^ LENGTH(8)" by (rule unsigned_less)
  then show ?thesis by simp
qed

lemma Sprintf_02x_alphabet: "set (Sprintf_02x b) \<subseteq> set hexdigits"
  by (simp add: Sprintf_02x_def hexdigit_in_alphabet unat_byte_div16)

lemma Sprintf_02x_length: "length (Sprintf_02x b) = 2"
  by (simp add: Sprintf_02x_def)

lemma Sprintf_02x_value:
  "16 * hexval (Sprintf_02x b ! 0) + hexval (Sprintf_02x b ! 1) = unat b"
  by (simp add: Sprintf_02x_def hexval_hexdigit unat_byte_div16)

lemma concat_pairs_length:
  "(\<And>x. length (f x) = 2) \<Longrightarrow> length (concat (map f xs)) = 2 * length xs"
  by (induction xs) auto

lemma concat_pairs_nth:
  "(\<And>x. length (f x) = 2) \<Longrightarrow> k < length xs \<Longrightarrow>
   concat (map f xs) ! (2 * k) = f (xs ! k) ! 0 \<and>
   concat (map f xs) ! (2 * k + 1) = f (xs ! k) ! 1"
proof (induction xs arbitrary: k)
  case Nil
  then show ?case by simp
next
  case (Cons x xs)
  show ?case
  proof (cases k)
    case 0
    with Cons.prems(1) [of x] show ?thesis
      by (simp add: nth_append)
  next
    case (Suc j)
    with Cons.prems have "j < length xs" by simp
    from Cons.IH [OF Cons.prems(1) this] Suc Cons.prems(1) [of x]
    show ?thesis by (simp add: nth_append)
  qed
qed

text \<open>
  C10. For a 32-byte value \<open>u\<close>, \<open>String u\<close> has exactly 64 characters, all of them
  lower-case hexadecimal digits; it is the two-digit rendering of the bytes in reverse
  order, so that characters \<open>2k\<close> and \<open>2k+1\<close> are the high and the low nibble of byte
  \<open>u[31-k]\<close>: \<open>u[31]\<close> comes first and \<open>u[0]\<close> last.
\<close>

theorem String_64_hex_reversed:
  assumes "length u = 32"
  shows "length (String u) = 64 \<and>
         set (String u) \<subseteq> set ''0123456789abcdef'' \<and>
         String u = concat (map Sprintf_02x (rev u)) \<and>
         (\<forall>k<32. 16 * hexval (String u ! (2 * k)) + hexval (String u ! (2 * k + 1))
                   = unat (u ! (31 - k)))"
proof (intro conjI allI impI)
  note eq = String_concat_rev [OF assms]
  have "length (concat (map Sprintf_02x (rev u))) = 2 * length (rev u)"
    by (rule concat_pairs_length) (rule Sprintf_02x_length)
  with assms show "length (String u) = 64"
    by (simp only: eq length_rev)
  have "set (concat (map Sprintf_02x (rev u))) \<subseteq> set hexdigits"
    using Sprintf_02x_alphabet by auto
  then show "set (String u) \<subseteq> set ''0123456789abcdef''"
    by (simp only: eq hexdigits_def)
  show "String u = concat (map Sprintf_02x (rev u))"
    by (rule eq)
  show "16 * hexval (String u ! (2 * k)) + hexval (String u ! (2 * k + 1)) = unat (u ! (31 - k))"
    if "k < 32" for k
  proof -
    from that assms have k: "k < length (rev u)" by simp
    from that assms have "rev u ! k = u ! (31 - k)"
      by (simp add: rev_nth)
    with concat_pairs_nth [of Sprintf_02x, OF Sprintf_02x_length k] show ?thesis
      by (simp only: eq Sprintf_02x_value)
  qed
qed

text \<open>The genesis block hash prints as the familiar string with its leading zeros.\<close>

theorem String_64_hex_reversed_witness:
  "length sample_hash = 32 \<and>
   length (String sample_hash) = 64 \<and>
   String sample_hash = ''000000000019d6689c085ae165831e934ff763ae46a2a6c172b3f1b60a8ce26f''"
proof -
  have len: "length sample_hash = 32"
    by (simp add: sample_hash_def)
  have "concat (map Sprintf_02x (rev sample_hash))
        = ''000000000019d6689c085ae165831e934ff763ae46a2a6c172b3f1b60a8ce26f''"
    by (simp add: sample_hash_def Sprintf_02x_def hexdigit_def hexdigits_def)
  with String_64_hex_reversed [OF len] len show ?thesis
    by (simp only:) simp
qed

section \<open>NewPGWriter\<close>

lemma HasPrefix_iff: "HasPrefix s p \<longleftrightarrow> (\<exists>q. s = p @ q)"
proof
  assume "HasPrefix s p"
  then have "s = p @ drop (length p) s"
    unfolding HasPrefix_def by (metis append_take_drop_id)
  then show "\<exists>q. s = p @ q" ..
next
  assume "\<exists>q. s = p @ q"
  then show "HasPrefix s p"
    by (auto simp: HasPrefix_def)
qed

lemma Contains_iff: "Contains s substr \<longleftrightarrow> (\<exists>p q. s = p @ substr @ q)"
proof (induction s)
  case Nil
  then show ?case by auto
next
  case (Cons c s)
  show ?case
  proof
    assume "Contains (c # s) substr"
    then consider "HasPrefix (c # s) substr" | "Contains s substr" by auto
    then show "\<exists>p q. c # s = p @ substr @ q"
    proof cases
      case 1
      then obtain q where "c # s = substr @ q" by (auto simp: HasPrefix_iff)
      then have "c # s = [] @ substr @ q" by simp
      then show ?thesis by blast
    next
      case 2
      with Cons.IH obtain p q where "s = p @ substr @ q" by auto
      then have "c # s = (c # p) @ substr @ q" by simp
      then show ?thesis by blast
    qed
  next
    assume "\<exists>p q. c # s = p @ substr @ q"
    then obtain p q where pq: "c # s = p @ substr @ q" by blast
    show "Contains (c # s) substr"
    proof (cases p)
      case Nil
      with pq have "HasPrefix (c # s) substr" by (auto simp: HasPrefix_iff)
      then show ?thesis by simp
    next
      case (Cons a p')
      with pq have "s = p' @ substr @ q" by simp
      with Cons.IH have "Contains s substr" by blast
      then show ?thesis by simp
    qed
  qed
qed

text \<open>
  C7. When \<^verbatim>\<open>createTables\<close> fails with an error whose message contains
  "already exists", \<open>NewPGWriter\<close> returns a writer whose pipeline was started with
  \<open>deferredIndexes = false\<close>; with any other error of \<^verbatim>\<open>createTables\<close> it returns
  that error and no writer. (When the tables are created it returns a writer in deferred
  mode, and an error of \<^verbatim>\<open>sql.Open\<close> is returned as it is.)
\<close>

theorem NewPGWriter_already_exists:
  "(sql_Open connstr = Inr d \<and> createTables d = Some err \<and>
      (\<exists>p q. Error err = p @ ''already exists'' @ q) \<longrightarrow>
        NewPGWriter sql_Open connstr cacheSize =
          Inr \<lparr>pw_db = d, pw_deferredIndexes = False, pw_cacheSize = cacheSize\<rparr>) \<and>
   (sql_Open connstr = Inr d \<and> createTables d = Some err \<and>
      \<not> (\<exists>p q. Error err = p @ ''already exists'' @ q) \<longrightarrow>
        NewPGWriter sql_Open connstr cacheSize = Inl err) \<and>
   (sql_Open connstr = Inr d \<and> createTables d = None \<longrightarrow>
        NewPGWriter sql_Open connstr cacheSize =
          Inr \<lparr>pw_db = d, pw_deferredIndexes = True, pw_cacheSize = cacheSize\<rparr>) \<and>
   (sql_Open connstr = Inl err \<longrightarrow> NewPGWriter sql_Open connstr cacheSize = Inl err)"
proof -
  have c: "(\<exists>p q. Error err = p @ ''already exists'' @ q)
           \<longleftrightarrow> Contains (Error err) ''already exists''"
    by (rule Contains_iff [symmetric])
  show ?thesis
    unfolding c by (simp add: NewPGWriter_def)
qed

text \<open>The four outcomes, on a loaded store, a store that refuses the statements, a fresh
  store and a connection string that cannot be opened.\<close>

theorem NewPGWriter_already_exists_witness:
  "NewPGWriter sample_Open ''dbname=loaded'' 1000 =
     Inr \<lparr>pw_db = side_branch_store, pw_deferredIndexes = False, pw_cacheSize = 1000\<rparr> \<and>
   NewPGWriter sample_Open ''dbname=readonly'' 1000 =
     Inl (Err ''pq: permission denied for schema public'') \<and>
   NewPGWriter sample_Open ''dbname=fresh'' 1000 =
     Inr \<lparr>pw_db = empty_store, pw_deferredIndexes = True, pw_cacheSize = 1000\<rparr> \<and>
   NewPGWriter sample_Open '''' 1000 = Inl (Err ''missing database name'')"
proof -
  have open_loaded: "sample_Open ''dbname=loaded'' = Inr side_branch_store"
    and open_readonly: "sample_Open ''dbname=readonly'' = Inr failing_store"
    and open_fresh: "sample_Open ''dbname=fresh'' = Inr empty_store"
    and open_none: "sample_Open '''' = Inl (Err ''missing database name'')"
    by (simp_all add: sample_Open_def)
  have "Error already_exists = ''pq: relation blocks '' @ ''already exists'' @ []"
    by (simp add: already_exists_def)
  then have ex: "\<exists>p q. Error already_exists = p @ ''already exists'' @ q"
    by blast
  have "\<not> Contains ''pq: permission denied for schema public'' ''already exists''"
    by (simp add: HasPrefix_def)
  then have nex: "\<not> (\<exists>p q. Error (Err ''pq: permission denied for schema public'')
                        = p @ ''already exists'' @ q)"
    by (simp add: Contains_iff)
  have tables: "createTables side_branch_store = Some already_exists"
    "createTables failing_store = Some (Err ''pq: permission denied for schema public'')"
    "createTables empty_store = None"
    by (simp_all add: createTables_def side_branch_store_def failing_store_def empty_store_def)
  from NewPGWriter_already_exists
         [of sample_Open "''dbname=loaded''" side_branch_store already_exists 1000]
       open_loaded tables ex
  have a: "NewPGWriter sample_Open ''dbname=loaded'' 1000 =
     Inr \<lparr>pw_db = side_branch_store, pw_deferredIndexes = False, pw_cacheSize = 1000\<rparr>"
    by blast
  from NewPGWriter_already_exists
         [of sample_Open "''dbname=readonly''" failing_store
             "Err ''pq: permission denied for schema public''" 1000]
       open_readonly tables nex
  have b: "NewPGWriter sample_Open ''dbname=readonly'' 1000 =
     Inl (Err ''pq: permission denied for schema public'')"
    by blast
  from NewPGWriter_already_exists [of sample_Open "''dbname=fresh''" empty_store _ 1000]
       open_fresh tables
  have c: "NewPGWriter sample_Open ''dbname=fresh'' 1000 =
     Inr \<lparr>pw_db = empty_store, pw_deferredIndexes = True, pw_cacheSize = 1000\<rparr>"
    by blast
  from NewPGWriter_already_exists [of sample_Open "''''" _ "Err ''missing database name''" 1000]
       open_none
  have d: "NewPGWriter sample_Open '''' 1000 = Inl (Err ''missing database name'')"
    by blast
  from a b c d show ?thesis by blast
qed

section \<open>Resume queries and LastHeight\<close>
lemma sorted_key_last_greatest:
  "sorted (map key xs) \<Longrightarrow> x \<in> set xs \<Longrightarrow> key x \<le> key (last xs)"
  by (induction xs) (auto split: if_splits)

lemma order_by_desc_limit_1:
  assumes "rows \<noteq> []"
  shows "\<exists>r. limit 1 (order_by_desc key rows) = [r] \<and> r \<in> set rows \<and>
             key r = Max (key ` set rows)"
proof -
  let ?s = "sort_key key rows"
  from assms have ne: "?s \<noteq> []"
    by (metis length_sort length_0_conv)
  then have "limit 1 (order_by_desc key rows) = [last ?s]"
    by (simp add: limit_def order_by_desc_def take_Suc hd_rev)
  moreover from ne have in_rows: "last ?s \<in> set rows"
    using last_in_set [of ?s] by simp
  moreover have "key (last ?s) = Max (key ` set rows)"
  proof (rule sym, rule Max_eqI)
    show "finite (key ` set rows)" by simp
    show "y \<le> key (last ?s)" if "y \<in> key ` set rows" for y
    proof -
      from that obtain x where "x \<in> set rows" "y = key x" by auto
      then show ?thesis
        using sorted_key_last_greatest [of key ?s x] by simp
    qed
    from in_rows show "key (last ?s) \<in> key ` set rows" by simp
  qed
  ultimately show ?thesis by simp
qed

lemma getLastHashAndHeight_Query_err:
  "Query_err (blocks_faults d) = Some e \<Longrightarrow> getLastHashAndHeight d = (0, 0, [], Some e)"
  by (simp add: getLastHashAndHeight_def)

lemma getLastHashAndHeight_empty:
  "Query_err (blocks_faults d) = None \<Longrightarrow> blocks d = [] \<Longrightarrow>
   getLastHashAndHeight d = (0, - 1, [], Rows_err (blocks_faults d))"
  by (simp add: getLastHashAndHeight_def limit_def order_by_desc_def split: option.splits)

lemma getLastHashAndHeight_row:
  assumes "Query_err (blocks_faults d) = None" "Rows_err (blocks_faults d) = None"
    "Scan_err (blocks_faults d) = None" "blocks d \<noteq> []"
  shows "\<exists>r \<in> set (blocks d). b_height r = Max (b_height ` set (blocks d)) \<and>
           getLastHashAndHeight d = (b_id r, b_height r, b_hash r, None)"
proof -
  from order_by_desc_limit_1 [OF assms(4), of b_height]
  obtain r where r: "limit 1 (order_by_desc b_height (blocks d)) = [r]" "r \<in> set (blocks d)"
    "b_height r = Max (b_height ` set (blocks d))" by blast
  with assms have "getLastHashAndHeight d = (b_id r, b_height r, b_hash r, None)"
    by (simp add: getLastHashAndHeight_def)
  with r show ?thesis by blast
qed

text \<open>
  C8. \<open>LastHeight\<close> returns the greatest height among the rows of the blocks table when
  the query succeeds on a table that is not empty, and \<open>-1\<close> when the table is empty
  (with the error of the iteration, if there is one); when the query fails it returns
  the error of the query.
\<close>

theorem LastHeight_greatest_height:
  "(Query_err (blocks_faults (pw_db w)) = Some e \<longrightarrow> LastHeight w = (0, Some e)) \<and>
   (Query_err (blocks_faults (pw_db w)) = None \<and> Rows_err (blocks_faults (pw_db w)) = None \<and>
    Scan_err (blocks_faults (pw_db w)) = None \<and> blocks (pw_db w) \<noteq> [] \<longrightarrow>
      LastHeight w = (Max (b_height ` set (blocks (pw_db w))), None)) \<and>
   (Query_err (blocks_faults (pw_db w)) = None \<and> blocks (pw_db w) = [] \<longrightarrow>
      LastHeight w = (- 1, Rows_err (blocks_faults (pw_db w))))"
proof (intro conjI impI)
  assume "Query_err (blocks_faults (pw_db w)) = Some e"
  then show "LastHeight w = (0, Some e)"
    by (simp add: LastHeight_def getLastHashAndHeight_Query_err)
next
  assume a: "Query_err (blocks_faults (pw_db w)) = None \<and> Rows_err (blocks_faults (pw_db w)) = None \<and>
    Scan_err (blocks_faults (pw_db w)) = None \<and> blocks (pw_db w) \<noteq> []"
  then have "\<exists>r \<in> set (blocks (pw_db w)). b_height r = Max (b_height ` set (blocks (pw_db w))) \<and>
           getLastHashAndHeight (pw_db w) = (b_id r, b_height r, b_hash r, None)"
    by (intro getLastHashAndHeight_row) simp_all
  then obtain r :: block_row where "b_height r = Max (b_height ` set (blocks (pw_db w)))"
    "getLastHashAndHeight (pw_db w) = (b_id r, b_height r, b_hash r, None)"
    by blast
  then show "LastHeight w = (Max (b_height ` set (blocks (pw_db w))), None)"
    by (simp add: LastHeight_def)
next
  assume "Query_err (blocks_faults (pw_db w)) = None \<and> blocks (pw_db w) = []"
  then show "LastHeight w = (- 1, Rows_err (blocks_faults (pw_db w)))"
    by (simp add: LastHeight_def getLastHashAndHeight_empty)
qed

text \<open>
  On the store with a side branch the height is 3, on the empty store \<open>-1\<close>, and a
  failed query returns its error.
\<close>

theorem LastHeight_greatest_height_witness:
  "LastHeight (sample_writer side_branch_store) = (3, None) \<and>
   Max (b_height ` set (blocks side_branch_store)) = 3 \<and>
   LastHeight (sample_writer empty_store) = (- 1, None) \<and>
   LastHeight (sample_writer failing_store) = (0, Some connection_lost)"
proof -
  have 1: "Query_err (blocks_faults (pw_db (sample_writer side_branch_store))) = None \<and>
     Rows_err (blocks_faults (pw_db (sample_writer side_branch_store))) = None \<and>
     Scan_err (blocks_faults (pw_db (sample_writer side_branch_store))) = None \<and>
     blocks (pw_db (sample_writer side_branch_store)) \<noteq> []"
    by (simp add: sample_writer_def side_branch_store_def no_faults_def)
  have 2: "Max (b_height ` set (blocks side_branch_store)) = 3"
    by (simp add: side_branch_store_def mk_block_row_def)
  have 3: "Query_err (blocks_faults (pw_db (sample_writer empty_store))) = None \<and>
     blocks (pw_db (sample_writer empty_store)) = []" "Rows_err (blocks_faults (pw_db (sample_writer empty_store))) = None"
    by (simp_all add: sample_writer_def empty_store_def no_faults_def)
  have 4: "Query_err (blocks_faults (pw_db (sample_writer failing_store))) = Some connection_lost"
    by (simp add: sample_writer_def failing_store_def empty_store_def no_faults_def)
  from LastHeight_greatest_height [of "sample_writer side_branch_store"] 1 2
  have a: "LastHeight (sample_writer side_branch_store) = (3, None)"
    by (simp add: sample_writer_def)
  from LastHeight_greatest_height [of "sample_writer empty_store"] 3
  have b: "LastHeight (sample_writer empty_store) = (- 1, None)"
    by simp
  from LastHeight_greatest_height [of "sample_writer failing_store" connection_lost] 4
  have c: "LastHeight (sample_writer failing_store) = (0, Some connection_lost)"
    by simp
  from a b c 2 show ?thesis by simp
qed

section \<open>Unsigned 32-bit fields in INT columns\<close>

lemma int32_bits: "(word_of_int (int32 (uint v)) :: 32 word) = v"
  by (simp add: int32_def)


lemma int32_range: "- 2147483648 \<le> int32 x \<and> int32 x < 2147483648"
  using sint_ge [of "word_of_int x :: 32 word"] sint_lt [of "word_of_int x :: 32 word"]
  by (simp add: int32_def)

lemma int32_4294967295: "int32 4294967295 = - 1"
  by (simp add: int32_def)

lemma uint32_minus_1: "uint32 (- 1) = 4294967295"
  by (simp add: uint32_def unsigned_minus_1_eq_mask mask_eq_exp_minus_1)

lemma int32_eq_minus_1: "int32 (uint (v :: 32 word)) = - 1 \<longleftrightarrow> v = 0xffffffff"
proof
  assume "int32 (uint v) = - 1"
  then have "(word_of_int (int32 (uint v)) :: 32 word) = word_of_int (- 1)"
    by simp
  then show "v = 0xffffffff"
    by (simp add: int32_bits)
next
  assume "v = 0xffffffff"
  then show "int32 (uint v) = - 1"
    by (simp add: int32_4294967295)
qed










section \<open>The coordinator: what one step sends\<close>

lemma incr_no_wrap: "x < maxInt64 \<Longrightarrow> incr x = x + 1"
  by (simp add: incr_def)

lemma recs_append [simp]: "recs (xs @ ys) = recs xs @ recs ys"
  by (simp add: recs_def)

lemma recs_simps [simp]: "recs [] = []" "recs (None # ms) = recs ms" "recs (Some r # ms) = r # recs ms"
  by (simp_all add: recs_def)

lemma recs_map_Some [simp]: "recs (map Some xs) = xs"
  by (induction xs) simp_all

lemma nils_append [simp]: "nils (xs @ ys) = nils xs + nils ys"
  by (simp add: nils_def)

lemma nils_simps [simp]: "nils [] = 0" "nils (None # ms) = Suc (nils ms)" "nils (Some r # ms) = nils ms"
  by (simp_all add: nils_def)

lemma nils_map_Some [simp]: "nils (map Some xs) = 0"
  by (induction xs) simp_all

lemma txInRecs_Some: "txInRecs t ins =
  map Some (map (\<lambda>(n, txin). \<lparr>ir_txId = t, ir_n = int n, ir_txIn = txin, ir_idCache = IdCache\<rparr>)
              (enumerate 0 ins))"
  by (simp add: txInRecs_def case_prod_beta)

lemma txOutRecs_Some: "txOutRecs t outs =
  map Some (map (\<lambda>(n, txout). \<lparr>or_txId = t, or_n = int n, or_txOut = txout\<rparr>) (enumerate 0 outs))"
  by (simp add: txOutRecs_def case_prod_beta)

lemma nils_txInRecs [simp]: "nils (txInRecs t ins) = 0"
  by (simp only: txInRecs_Some nils_map_Some)

lemma nils_txOutRecs [simp]: "nils (txOutRecs t outs) = 0"
  by (simp only: txOutRecs_Some nils_map_Some)

lemma tx_body_counters:
  "bid (tx_body add check sched s b n tx w) = bid w"
  "blockCh (tx_body add check sched s b n tx w) = blockCh w"
  "txid (tx_body add check sched s b n tx w) = incr (txid w)"
  "txcnt (tx_body add check sched s b n tx w) = incr (txcnt w)"
  "idCache (tx_body add check sched s b n tx w) = snd (add_result add check sched tx w)"
  by (simp_all add: tx_body_def add_result_def Let_def split: prod.splits)

lemma tx_body_txCh:
  "txCh (tx_body add check sched s b n tx w) =
     txCh w @ [Some \<lparr>tr_id = fst (add_result add check sched tx w), tr_blockId = b,
                      tr_n = int n, tr_tx = tx, tr_hash = TxHash tx, tr_sync = s,
                      tr_dupe = (fst (add_result add check sched tx w) \<noteq> incr (txid w))\<rparr>]"
  by (simp add: tx_body_def add_result_def Let_def split: prod.splits)

lemma tx_body_txInCh:
  "txInCh (tx_body add check sched s b n tx w) =
     txInCh w @ (if fst (add_result add check sched tx w) \<noteq> incr (txid w) then []
                 else txInRecs (incr (txid w)) (TxIns tx))"
  by (simp add: tx_body_def add_result_def Let_def split: prod.splits)

lemma tx_body_txOutCh:
  "txOutCh (tx_body add check sched s b n tx w) =
     txOutCh w @ (if fst (add_result add check sched tx w) \<noteq> incr (txid w) then []
                  else txOutRecs (incr (txid w)) (TxOuts tx))"
  by (simp add: tx_body_def add_result_def Let_def split: prod.splits)

lemma txs_loop_frame:
  "bid (txs_loop add check sched s b n ts w) = bid w \<and>
   blockCh (txs_loop add check sched s b n ts w) = blockCh w \<and>
   nils (txCh (txs_loop add check sched s b n ts w)) = nils (txCh w) \<and>
   nils (txInCh (txs_loop add check sched s b n ts w)) = nils (txInCh w) \<and>
   nils (txOutCh (txs_loop add check sched s b n ts w)) = nils (txOutCh w)"
proof (induction ts arbitrary: n w)
  case Nil
  show ?case by simp
next
  case (Cons tx ts)
  show ?case
    by (simp add: Cons.IH tx_body_counters tx_body_txCh tx_body_txInCh tx_body_txOutCh)
qed

section \<open>Commit marks\<close>

lemma commit_marks_bid [simp]: "bid (commit_marks di w) = bid w"
  by (simp add: commit_marks_def)

lemma commit_marks_txid [simp]: "txid (commit_marks di w) = txid w"
  by (simp add: commit_marks_def)

lemma commit_marks_idCache [simp]: "idCache (commit_marks di w) = idCache w"
  by (simp add: commit_marks_def)

lemma commit_marks_recs [simp]:
  "recs (blockCh (commit_marks di w)) = recs (blockCh w)"
  "recs (txCh (commit_marks di w)) = recs (txCh w)"
  "recs (txInCh (commit_marks di w)) = recs (txInCh w)"
  "recs (txOutCh (commit_marks di w)) = recs (txOutCh w)"
  by (simp_all add: commit_marks_def)

lemma txs_loop_bid: "bid (txs_loop add check sched s b n ts w) = bid w"
  and txs_loop_blockCh: "blockCh (txs_loop add check sched s b n ts w) = blockCh w"
  and txs_loop_nils_txCh: "nils (txCh (txs_loop add check sched s b n ts w)) = nils (txCh w)"
  and txs_loop_nils_txInCh: "nils (txInCh (txs_loop add check sched s b n ts w)) = nils (txInCh w)"
  and txs_loop_nils_txOutCh: "nils (txOutCh (txs_loop add check sched s b n ts w)) = nils (txOutCh w)"
  using txs_loop_frame [of add check sched s b n ts w] by simp_all

lemmas txs_loop_frames =
  txs_loop_bid txs_loop_blockCh txs_loop_nils_txCh txs_loop_nils_txInCh txs_loop_nils_txOutCh

text \<open>One step of the block loop, channel by channel.\<close>

lemma block_body_bid: "bid (block_body add check sched di bi w) = incr (bid w)"
  by (simp add: block_body_def Let_def txs_loop_frames)

lemma block_body_nils:
  "nils (blockCh (block_body add check sched di bi w)) =
     nils (blockCh w) + (if di \<and> go_rem (incr (bid w)) 50 = 0 then 1 else 0)"
  "nils (txCh (block_body add check sched di bi w)) =
     nils (txCh w) + (if di \<and> go_rem (incr (bid w)) 50 = 0 then 1 else 0)"
  "nils (txInCh (block_body add check sched di bi w)) =
     nils (txInCh w) + (if \<not> di \<or> go_rem (incr (bid w)) 50 = 0 then 1 else 0)"
  "nils (txOutCh (block_body add check sched di bi w)) =
     nils (txOutCh w) + (if \<not> di \<or> go_rem (incr (bid w)) 50 = 0 then 1 else 0)"
  by (simp_all add: block_body_def Let_def commit_marks_def txs_loop_frames)

lemma block_body_last:
  "\<not> di \<or> go_rem (incr (bid w)) 50 = 0 \<Longrightarrow>
     last (txInCh (block_body add check sched di bi w)) = None \<and>
     last (txOutCh (block_body add check sched di bi w)) = None"
  "di \<Longrightarrow> go_rem (incr (bid w)) 50 = 0 \<Longrightarrow>
     last (blockCh (block_body add check sched di bi w)) = None \<and>
     last (txCh (block_body add check sched di bi w)) = None"
  by (auto simp add: block_body_def Let_def commit_marks_def txs_loop_frames)

lemma go_rem_50: "go_rem x 50 = 0 \<longleftrightarrow> x mod 50 = 0"
proof -
  have "\<bar>x\<bar> mod 50 = 0 \<longleftrightarrow> x mod 50 = 0"
    by presburger
  moreover have "x = 0 \<Longrightarrow> x mod 50 = 0" by simp
  ultimately show ?thesis
    by (auto simp: go_rem_def sgn_if)
qed

lemma blocks_loop_sync_nils:
  "nils (blockCh (blocks_loop add check sched False ch w)) = nils (blockCh w) \<and>
   nils (txCh (blocks_loop add check sched False ch w)) = nils (txCh w) \<and>
   nils (txInCh (blocks_loop add check sched False ch w)) = nils (txInCh w) + length ch \<and>
   nils (txOutCh (blocks_loop add check sched False ch w)) = nils (txOutCh w) + length ch"
  by (induction ch arbitrary: w) (simp_all add: block_body_nils)

lemma div_50_step:
  "(b + 1) div 50 = b div 50 + (if (b + 1) mod 50 = 0 then 1 else 0)" for b :: int
proof -
  define q r where "q = b div 50" and "r = b mod 50"
  have b: "b = 50 * q + r" and r: "0 \<le> r" "r < 50"
    by (simp_all add: q_def r_def)
  show ?thesis
  proof (cases "r = 49")
    case True
    with b have e: "b + 1 = 50 * (q + 1) + 0" by simp
    have "(b + 1) div 50 = q + 1"
      by (rule int_div_pos_eq [OF e]) simp_all
    moreover have "(b + 1) mod 50 = 0"
      by (rule int_mod_pos_eq [OF e]) simp_all
    ultimately show ?thesis by (simp add: q_def)
  next
    case False
    with r have r1: "0 \<le> r + 1" "r + 1 < 50" by simp_all
    from b have e: "b + 1 = 50 * q + (r + 1)" by simp
    have "(b + 1) div 50 = q"
      by (rule int_div_pos_eq [OF e r1])
    moreover have "(b + 1) mod 50 = r + 1"
      by (rule int_mod_pos_eq [OF e r1])
    ultimately show ?thesis using r by (simp add: q_def)
  qed
qed

lemma blocks_loop_bid:
  "bid w + int (length ch) \<le> maxInt64 \<Longrightarrow>
   bid (blocks_loop add check sched di ch w) = bid w + int (length ch)"
proof (induction ch arbitrary: w)
  case Nil
  show ?case by simp
next
  case (Cons bi ch)
  from Cons.prems have "bid w < maxInt64" by simp
  then have b: "bid (block_body add check sched di bi w) = bid w + 1"
    by (simp add: block_body_bid incr_no_wrap)
  with Cons.prems Cons.IH [of "block_body add check sched di bi w"] show ?case
    by simp
qed

text \<open>
  In deferred mode a channel receives one nil for every multiple of 50 that the block id
  passes; \<open>chan\<close> is any of the four channels.
\<close>

lemma blocks_loop_deferred_count:
  fixes chan :: "'c worker \<Rightarrow> 'm option list"
  assumes step: "\<And>bi w. nils (chan (block_body add check sched True bi w)) =
                   nils (chan w) + (if go_rem (incr (bid w)) 50 = 0 then 1 else 0)"
    and "bid w + int (length ch) \<le> maxInt64"
  shows "int (nils (chan (blocks_loop add check sched True ch w))) =
           int (nils (chan w)) + ((bid w + int (length ch)) div 50 - bid w div 50)"
  using assms(2)
proof (induction ch arbitrary: w)
  case Nil
  show ?case by simp
next
  case (Cons bi ch)
  let ?w = "block_body add check sched True bi w"
  from Cons.prems have lt: "bid w < maxInt64" by simp
  then have inc: "incr (bid w) = bid w + 1"
    by (rule incr_no_wrap)
  then have b: "bid ?w = bid w + 1"
    by (simp add: block_body_bid)
  with Cons.prems have "bid ?w + int (length ch) \<le> maxInt64"
    by simp
  from Cons.IH [OF this]
  have IH: "int (nils (chan (blocks_loop add check sched True ch ?w))) =
          int (nils (chan ?w)) + ((bid w + 1 + int (length ch)) div 50 - (bid w + 1) div 50)"
    by (simp only: b)
  have st: "int (nils (chan ?w)) = int (nils (chan w)) + (if (bid w + 1) mod 50 = 0 then 1 else 0)"
    by (simp add: step inc go_rem_50)
  have "bid w + int (length (bi # ch)) = bid w + 1 + int (length ch)"
    by simp
  with IH st div_50_step [of "bid w"] show ?case
    by (simp only: blocks_loop.simps)
qed

lemma blocks_loop_deferred_nils:
  assumes "bid w + int (length ch) \<le> maxInt64"
  shows "int (nils (blockCh (blocks_loop add check sched True ch w))) =
     int (nils (blockCh w)) + ((bid w + int (length ch)) div 50 - bid w div 50)"
   "int (nils (txCh (blocks_loop add check sched True ch w))) =
     int (nils (txCh w)) + ((bid w + int (length ch)) div 50 - bid w div 50)"
   "int (nils (txInCh (blocks_loop add check sched True ch w))) =
     int (nils (txInCh w)) + ((bid w + int (length ch)) div 50 - bid w div 50)"
   "int (nils (txOutCh (blocks_loop add check sched True ch w))) =
     int (nils (txOutCh w)) + ((bid w + int (length ch)) div 50 - bid w div 50)"
proof -
  show "int (nils (blockCh (blocks_loop add check sched True ch w))) =
     int (nils (blockCh w)) + ((bid w + int (length ch)) div 50 - bid w div 50)"
    by (rule blocks_loop_deferred_count [where chan = blockCh, OF _ assms])
       (simp add: block_body_nils)
  show "int (nils (txCh (blocks_loop add check sched True ch w))) =
     int (nils (txCh w)) + ((bid w + int (length ch)) div 50 - bid w div 50)"
    by (rule blocks_loop_deferred_count [where chan = txCh, OF _ assms])
       (simp add: block_body_nils)
  show "int (nils (txInCh (blocks_loop add check sched True ch w))) =
     int (nils (txInCh w)) + ((bid w + int (length ch)) div 50 - bid w div 50)"
    by (rule blocks_loop_deferred_count [where chan = txInCh, OF _ assms])
       (simp add: block_body_nils)
  show "int (nils (txOutCh (blocks_loop add check sched True ch w))) =
     int (nils (txOutCh w)) + ((bid w + int (length ch)) div 50 - bid w div 50)"
    by (rule blocks_loop_deferred_count [where chan = txOutCh, OF _ assms])
       (simp add: block_body_nils)
qed

lemma pgBlockWorker_empty_store:
  assumes "blocks d = []" "txs d = []" "blocks_faults d = no_faults" "txs_faults d = no_faults"
  shows "pgBlockWorker add check new sched ch d di cs =
           Inr (blocks_loop add check sched di ch (start_worker 0 0 (new cs)))"
  using assms
  by (simp add: pgBlockWorker_def getLastHashAndHeight_def getLastTxId_def no_faults_def
      limit_def order_by_desc_def)

lemma start_worker_simps [simp]:
  "bid (start_worker b t c) = b" "txid (start_worker b t c) = t"
  "txcnt (start_worker b t c) = 0" "idCache (start_worker b t c) = c"
  "blockCh (start_worker b t c) = []" "txCh (start_worker b t c) = []"
  "txInCh (start_worker b t c) = []" "txOutCh (start_worker b t c) = []"
  by (simp_all add: start_worker_def)

lemma go_rem_50_dvd: "go_rem x 50 = 0 \<longleftrightarrow> 50 dvd x"
  by (simp add: go_rem_50 mod_eq_0_iff_dvd)

lemma int_div_50: "int n = int m div 50 \<Longrightarrow> n = m div 50"
proof -
  assume a: "int n = int m div 50"
  have "int (m div 50) = int m div 50"
    by (simp add: zdiv_int)
  with a have "int n = int (m div 50)"
    by simp
  then show ?thesis
    by (simp only: of_nat_eq_iff)
qed

text \<open>
  C6. In synchronous mode (\<open>deferredIndexes\<close> false) every accepted block ends with one
  nil on the txin channel and one on the txout channel, and none on the block and tx
  channels. In deferred mode a block ends with a nil on each of the four channels exactly
  when the block id just minted is a multiple of 50. Over a run: in synchronous mode the
  txin and txout channels receive as many nils as there are accepted blocks; in deferred
  mode on an empty store, where the ids start at 1, each channel receives one nil for
  every 50 blocks.
\<close>

theorem commit_sentinel_cadence:
  fixes w :: "'c worker"
  shows
  "(nils (blockCh (block_body add check sched False bi w)) = nils (blockCh w) \<and>
    nils (txCh (block_body add check sched False bi w)) = nils (txCh w) \<and>
    nils (txInCh (block_body add check sched False bi w)) = Suc (nils (txInCh w)) \<and>
    nils (txOutCh (block_body add check sched False bi w)) = Suc (nils (txOutCh w)) \<and>
    last (txInCh (block_body add check sched False bi w)) = None \<and>
    last (txOutCh (block_body add check sched False bi w)) = None) \<and>
   (50 dvd bid (block_body add check sched True bi w) \<longrightarrow>
      nils (blockCh (block_body add check sched True bi w)) = Suc (nils (blockCh w)) \<and>
      nils (txCh (block_body add check sched True bi w)) = Suc (nils (txCh w)) \<and>
      nils (txInCh (block_body add check sched True bi w)) = Suc (nils (txInCh w)) \<and>
      nils (txOutCh (block_body add check sched True bi w)) = Suc (nils (txOutCh w)) \<and>
      last (blockCh (block_body add check sched True bi w)) = None \<and>
      last (txCh (block_body add check sched True bi w)) = None \<and>
      last (txInCh (block_body add check sched True bi w)) = None \<and>
      last (txOutCh (block_body add check sched True bi w)) = None) \<and>
   (\<not> 50 dvd bid (block_body add check sched True bi w) \<longrightarrow>
      nils (blockCh (block_body add check sched True bi w)) = nils (blockCh w) \<and>
      nils (txCh (block_body add check sched True bi w)) = nils (txCh w) \<and>
      nils (txInCh (block_body add check sched True bi w)) = nils (txInCh w) \<and>
      nils (txOutCh (block_body add check sched True bi w)) = nils (txOutCh w)) \<and>
   (nils (blockCh (blocks_loop add check sched False ch w)) = nils (blockCh w) \<and>
    nils (txCh (blocks_loop add check sched False ch w)) = nils (txCh w) \<and>
    nils (txInCh (blocks_loop add check sched False ch w)) = nils (txInCh w) + length ch \<and>
    nils (txOutCh (blocks_loop add check sched False ch w)) = nils (txOutCh w) + length ch) \<and>
   (blocks d = [] \<and> txs d = [] \<and> blocks_faults d = no_faults \<and> txs_faults d = no_faults \<and>
    int (length ch) \<le> maxInt64 \<longrightarrow>
      (\<exists>w'. pgBlockWorker add check new sched ch d True cacheSize = Inr w' \<and>
            nils (blockCh w') = length ch div 50 \<and>
            nils (txCh w') = length ch div 50 \<and>
            nils (txInCh w') = length ch div 50 \<and>
            nils (txOutCh w') = length ch div 50))"
proof (intro conjI impI)
  show "nils (blockCh (block_body add check sched False bi w)) = nils (blockCh w)"
    "nils (txCh (block_body add check sched False bi w)) = nils (txCh w)"
    "nils (txInCh (block_body add check sched False bi w)) = Suc (nils (txInCh w))"
    "nils (txOutCh (block_body add check sched False bi w)) = Suc (nils (txOutCh w))"
    by (simp_all add: block_body_nils)
  show "last (txInCh (block_body add check sched False bi w)) = None"
    "last (txOutCh (block_body add check sched False bi w)) = None"
    using block_body_last(1) [of False w add check sched bi] by simp_all
next
  assume "50 dvd bid (block_body add check sched True bi w)"
  then have g: "go_rem (incr (bid w)) 50 = 0"
    by (simp add: block_body_bid go_rem_50_dvd)
  then show "nils (blockCh (block_body add check sched True bi w)) = Suc (nils (blockCh w))"
    "nils (txCh (block_body add check sched True bi w)) = Suc (nils (txCh w))"
    "nils (txInCh (block_body add check sched True bi w)) = Suc (nils (txInCh w))"
    "nils (txOutCh (block_body add check sched True bi w)) = Suc (nils (txOutCh w))"
    by (simp_all add: block_body_nils)
  from g show "last (blockCh (block_body add check sched True bi w)) = None"
    "last (txCh (block_body add check sched True bi w)) = None"
    using block_body_last(2) [of True w add check sched bi] by simp_all
  from g show "last (txInCh (block_body add check sched True bi w)) = None"
    "last (txOutCh (block_body add check sched True bi w)) = None"
    using block_body_last(1) [of True w add check sched bi] by simp_all
next
  assume "\<not> 50 dvd bid (block_body add check sched True bi w)"
  then have g: "go_rem (incr (bid w)) 50 \<noteq> 0"
    by (simp add: block_body_bid go_rem_50_dvd)
  then show "nils (blockCh (block_body add check sched True bi w)) = nils (blockCh w)"
    "nils (txCh (block_body add check sched True bi w)) = nils (txCh w)"
    "nils (txInCh (block_body add check sched True bi w)) = nils (txInCh w)"
    "nils (txOutCh (block_body add check sched True bi w)) = nils (txOutCh w)"
    by (simp_all add: block_body_nils)
next
  show "nils (blockCh (blocks_loop add check sched False ch w)) = nils (blockCh w)"
    "nils (txCh (blocks_loop add check sched False ch w)) = nils (txCh w)"
    "nils (txInCh (blocks_loop add check sched False ch w)) = nils (txInCh w) + length ch"
    "nils (txOutCh (blocks_loop add check sched False ch w)) = nils (txOutCh w) + length ch"
    using blocks_loop_sync_nils [of add check sched ch w] by simp_all
next
  assume a: "blocks d = [] \<and> txs d = [] \<and> blocks_faults d = no_faults \<and>
    txs_faults d = no_faults \<and> int (length ch) \<le> maxInt64"
  let ?w0 = "start_worker 0 0 (new cacheSize) :: 'c worker"
  let ?w' = "blocks_loop add check sched True ch ?w0"
  from a have run: "pgBlockWorker add check new sched ch d True cacheSize = Inr ?w'"
    by (simp add: pgBlockWorker_empty_store)
  from a have bound: "bid ?w0 + int (length ch) \<le> maxInt64"
    by simp
  have "int (nils (blockCh ?w')) = int (length ch) div 50"
    "int (nils (txCh ?w')) = int (length ch) div 50"
    "int (nils (txInCh ?w')) = int (length ch) div 50"
    "int (nils (txOutCh ?w')) = int (length ch) div 50"
    using blocks_loop_deferred_nils [OF bound, of add check sched] by simp_all
  then have "nils (blockCh ?w') = length ch div 50 \<and> nils (txCh ?w') = length ch div 50 \<and>
    nils (txInCh ?w') = length ch div 50 \<and> nils (txOutCh ?w') = length ch div 50"
    by (intro conjI int_div_50)
  with run show "\<exists>w'. pgBlockWorker add check new sched ch d True cacheSize = Inr w' \<and>
            nils (blockCh w') = length ch div 50 \<and>
            nils (txCh w') = length ch div 50 \<and>
            nils (txInCh w') = length ch div 50 \<and>
            nils (txOutCh w') = length ch div 50"
    by blast
qed


text \<open>
  The block that takes id 50 ends with a nil on every channel; the first block of a
  fresh store ends with none in deferred mode and with one on the txin channel in
  synchronous mode; 120 blocks on a fresh store give two nils on each channel.
\<close>

theorem commit_sentinel_cadence_witness:
  "50 dvd bid (block_body txIdCache_add txIdCache_check no_checks True (simple_block 49 50 49)
                 (start_worker 49 49 (newTxIdCache 10))) \<and>
   last (blockCh (block_body txIdCache_add txIdCache_check no_checks True (simple_block 49 50 49)
                 (start_worker 49 49 (newTxIdCache 10)))) = None \<and>
   nils (txCh (block_body txIdCache_add txIdCache_check no_checks True (simple_block 49 50 49)
                 (start_worker 49 49 (newTxIdCache 10)))) = 1 \<and>
   \<not> 50 dvd bid (block_body txIdCache_add txIdCache_check no_checks True (simple_block 0 1 0)
                 (start_worker 0 0 (newTxIdCache 10))) \<and>
   nils (txInCh (block_body txIdCache_add txIdCache_check no_checks True (simple_block 0 1 0)
                 (start_worker 0 0 (newTxIdCache 10)))) = 0 \<and>
   nils (txInCh (block_body txIdCache_add txIdCache_check no_checks False (simple_block 0 1 0)
                 (start_worker 0 0 (newTxIdCache 10)))) = 1 \<and>
   int (length (replicate 120 (simple_block 0 1 0))) \<le> maxInt64 \<and>
   (\<exists>w'. pgBlockWorker txIdCache_add txIdCache_check newTxIdCache no_checks
            (replicate 120 (simple_block 0 1 0)) empty_store True 10 = Inr w' \<and>
         nils (blockCh w') = 2 \<and> nils (txCh w') = 2 \<and>
         nils (txInCh w') = 2 \<and> nils (txOutCh w') = 2)"
proof -
  let ?w49 = "start_worker 49 49 (newTxIdCache 10)"
  let ?w0 = "start_worker 0 0 (newTxIdCache 10)"
  have d50: "50 dvd bid (block_body txIdCache_add txIdCache_check no_checks True
                           (simple_block 49 50 49) ?w49)"
    by (simp add: block_body_bid incr_def maxInt64_def)
  have n50: "\<not> 50 dvd bid (block_body txIdCache_add txIdCache_check no_checks True
                           (simple_block 0 1 0) ?w0)"
    by (simp add: block_body_bid incr_def maxInt64_def)
  have store: "blocks empty_store = [] \<and> txs empty_store = [] \<and>
    blocks_faults empty_store = no_faults \<and> txs_faults empty_store = no_faults \<and>
    int (length (replicate 120 (simple_block 0 1 0))) \<le> maxInt64"
    by (simp add: empty_store_def maxInt64_def)
  from commit_sentinel_cadence
         [where add = txIdCache_add and check = txIdCache_check and sched = no_checks
            and bi = "simple_block 49 50 49" and w = ?w49] d50
  have a: "last (blockCh (block_body txIdCache_add txIdCache_check no_checks True
                            (simple_block 49 50 49) ?w49)) = None \<and>
           nils (txCh (block_body txIdCache_add txIdCache_check no_checks True
                            (simple_block 49 50 49) ?w49)) = 1"
    by simp
  from commit_sentinel_cadence
         [where add = txIdCache_add and check = txIdCache_check and sched = no_checks
            and bi = "simple_block 0 1 0" and w = ?w0] n50
  have b: "nils (txInCh (block_body txIdCache_add txIdCache_check no_checks True
                            (simple_block 0 1 0) ?w0)) = 0 \<and>
           nils (txInCh (block_body txIdCache_add txIdCache_check no_checks False
                            (simple_block 0 1 0) ?w0)) = 1"
    by simp
  from commit_sentinel_cadence
         [where add = txIdCache_add and check = txIdCache_check and sched = no_checks
            and new = newTxIdCache and d = empty_store and cacheSize = 10
            and ch = "replicate 120 (simple_block 0 1 0)"] store
  have c: "\<exists>w'. pgBlockWorker txIdCache_add txIdCache_check newTxIdCache no_checks
            (replicate 120 (simple_block 0 1 0)) empty_store True 10 = Inr w' \<and>
         nils (blockCh w') = 2 \<and> nils (txCh w') = 2 \<and>
         nils (txInCh w') = 2 \<and> nils (txOutCh w') = 2"
    by simp
  from d50 n50 store a b c show ?thesis
    by (simp only:) simp
qed

section \<open>Skip mode\<close>

lemma skip_loop_match:
  "\<forall>b \<in> set pre. BlockHash (Block b) \<noteq> bhash \<Longrightarrow> BlockHash (Block m) = bhash \<Longrightarrow>
   skip_loop bhash (pre @ m # post) skip = (post, (incr ^^ length pre) skip)"
proof (induction pre arbitrary: skip)
  case Nil
  then show ?case by simp
next
  case (Cons b pre)
  then show ?case
    by (auto simp: funpow_swap1)
qed

lemma skip_loop_no_match:
  "\<forall>b \<in> set ch. BlockHash (Block b) \<noteq> bhash \<Longrightarrow>
   skip_loop bhash ch skip = ([], (incr ^^ length ch) skip)"
proof (induction ch arbitrary: skip)
  case Nil
  then show ?case by simp
next
  case (Cons b ch)
  then show ?case
    by (auto simp: funpow_swap1)
qed

lemma skip_loop_suffix: "\<exists>pre. ch = pre @ fst (skip_loop bhash ch skip)"
proof (induction ch arbitrary: skip)
  case Nil
  show ?case by simp
next
  case (Cons b ch)
  show ?case
  proof (cases "bhash = BlockHash (Block b)")
    case True
    then have "b # ch = [b] @ fst (skip_loop bhash (b # ch) skip)" by simp
    then show ?thesis ..
  next
    case False
    from Cons.IH [of "incr skip"] obtain pre where "ch = pre @ fst (skip_loop bhash ch (incr skip))"
      by blast
    with False have "b # ch = (b # pre) @ fst (skip_loop bhash (b # ch) skip)"
      by simp
    then show ?thesis ..
  qed
qed

lemma pgBlockWorker_resume:
  assumes "getLastHashAndHeight d = (bid0, height, bhash, None)"
    and "getLastTxId d = (txid0, None)"
  shows "pgBlockWorker add check new sched ch d di cs =
           Inr (blocks_loop add check sched di
                  (if bhash \<noteq> [] then fst (skip_loop bhash ch 0) else ch)
                  (start_worker bid0 txid0 (new cs)))"
  using assms by (simp add: pgBlockWorker_def)

text \<open>
  C5. When the resume queries succeed and return a last hash that is not empty, the
  worker drops the blocks of its input up to and including the first one whose hash is
  the last hash, and then runs the main loop on the blocks after it, starting from the
  counters the queries returned and with empty channels: the dropped blocks use up no id
  and send no record. If no block has the last hash, the whole input is dropped.
\<close>

theorem skip_mode:
  assumes "getLastHashAndHeight d = (bid0, height, bhash, None)"
    and "getLastTxId d = (txid0, None)"
    and "bhash \<noteq> []"
  shows "((\<forall>b \<in> set pre. BlockHash (Block b) \<noteq> bhash) \<and> BlockHash (Block m) = bhash \<longrightarrow>
            pgBlockWorker add check new sched (pre @ m # post) d di cs =
              Inr (blocks_loop add check sched di post (start_worker bid0 txid0 (new cs)))) \<and>
         ((\<forall>b \<in> set ch. BlockHash (Block b) \<noteq> bhash) \<longrightarrow>
            pgBlockWorker add check new sched ch d di cs = Inr (start_worker bid0 txid0 (new cs))) \<and>
         bid (start_worker bid0 txid0 (new cs)) = bid0 \<and>
         txid (start_worker bid0 txid0 (new cs)) = txid0 \<and>
         blockCh (start_worker bid0 txid0 (new cs)) = [] \<and>
         txCh (start_worker bid0 txid0 (new cs)) = [] \<and>
         txInCh (start_worker bid0 txid0 (new cs)) = [] \<and>
         txOutCh (start_worker bid0 txid0 (new cs)) = []"
  by (simp add: pgBlockWorker_resume [OF assms(1,2)] assms(3) skip_loop_match skip_loop_no_match)

text \<open>
  On the store that holds A0 and A1, the input A0, A1, A2 is ingested as A2 alone, which
  gets id 3; the input A0 is dropped entirely.
\<close>

theorem skip_mode_witness:
  "getLastHashAndHeight linear_store = (2, 1, mk_hash 11, None) \<and>
   getLastTxId linear_store = (2, None) \<and> mk_hash 11 \<noteq> [] \<and>
   BlockHash (Block (simple_block 0 10 0)) \<noteq> mk_hash 11 \<and>
   BlockHash (Block (simple_block 1 11 10)) = mk_hash 11 \<and>
   pgBlockWorker txIdCache_add txIdCache_check newTxIdCache no_checks chain_A0_A2
     linear_store False 10 =
     Inr (blocks_loop txIdCache_add txIdCache_check no_checks False [simple_block 2 12 11]
            (start_worker 2 2 (newTxIdCache 10))) \<and>
   map (\<lambda>r. (br_id r, br_height r))
     (recs (blockCh (blocks_loop txIdCache_add txIdCache_check no_checks False
                       [simple_block 2 12 11] (start_worker 2 2 (newTxIdCache 10))))) = [(3, 2)] \<and>
   pgBlockWorker txIdCache_add txIdCache_check newTxIdCache no_checks [simple_block 0 10 0]
     linear_store False 10 = Inr (start_worker 2 2 (newTxIdCache 10))"
proof -
  have g: "getLastHashAndHeight linear_store = (2, 1, mk_hash 11, None)"
    by code_simp
  have t: "getLastTxId linear_store = (2, None)"
    by code_simp
  have h: "mk_hash 11 \<noteq> []"
    by (simp add: mk_hash_def)
  have pre: "\<forall>b \<in> set [simple_block 0 10 0]. BlockHash (Block b) \<noteq> mk_hash 11"
    by (simp add: simple_block_def mk_info_def mk_block_def mk_hash_def)
  have m: "BlockHash (Block (simple_block 1 11 10)) = mk_hash 11"
    by (simp add: simple_block_def mk_info_def mk_block_def)
  have ch: "chain_A0_A2 = [simple_block 0 10 0] @ simple_block 1 11 10 # [simple_block 2 12 11]"
    by (simp add: chain_A0_A2_def)
  have v: "map (\<lambda>r. (br_id r, br_height r))
     (recs (blockCh (blocks_loop txIdCache_add txIdCache_check no_checks False
                       [simple_block 2 12 11] (start_worker 2 2 (newTxIdCache 10))))) = [(3, 2)]"
    by code_simp
  from skip_mode [OF g t h, where pre = "[simple_block 0 10 0]" and m = "simple_block 1 11 10"
                    and post = "[simple_block 2 12 11]" and ch = "[simple_block 0 10 0]"
                    and add = txIdCache_add and check = txIdCache_check and new = newTxIdCache
                    and sched = no_checks and di = False and cs = 10]
       pre m
  have "pgBlockWorker txIdCache_add txIdCache_check newTxIdCache no_checks chain_A0_A2
          linear_store False 10 =
     Inr (blocks_loop txIdCache_add txIdCache_check no_checks False [simple_block 2 12 11]
            (start_worker 2 2 (newTxIdCache 10)))"
    and "pgBlockWorker txIdCache_add txIdCache_check newTxIdCache no_checks [simple_block 0 10 0]
     linear_store False 10 = Inr (start_worker 2 2 (newTxIdCache 10))"
    unfolding ch by blast+
  with g t h pre m v show ?thesis
    by simp
qed

section \<open>The id discipline\<close>

lemma block_body_blockCh:
  "recs (blockCh (block_body add check sched di bi w)) =
     recs (blockCh w) @ [\<lparr>br_id = incr (bid w), br_height = Height bi, br_block = Block bi,
                          br_hash = BlockHash (Block bi), br_orphan = False,
                          br_status = Status bi, br_filen = FileN bi, br_filepos = FilePos bi,
                          br_sync = (\<not> di)\<rparr>]"
  by (simp add: block_body_def Let_def txs_loop_blockCh)

lemma txs_loop_txid:
  "txid w + int (length ts) \<le> maxInt64 \<Longrightarrow>
   txid (txs_loop add check sched s b n ts w) = txid w + int (length ts)"
proof (induction ts arbitrary: n w)
  case Nil
  show ?case by simp
next
  case (Cons tx ts)
  from Cons.prems have "txid w < maxInt64" by simp
  then have t: "txid (tx_body add check sched s b n tx w) = txid w + 1"
    by (simp add: tx_body_counters incr_no_wrap)
  with Cons.prems Cons.IH [of "tx_body add check sched s b n tx w" "Suc n"] show ?case
    by simp
qed

lemma block_body_txid:
  "txid w + int (length (Txs (Block bi))) \<le> maxInt64 \<Longrightarrow>
   txid (block_body add check sched di bi w) = txid w + int (length (Txs (Block bi)))"
  by (simp add: block_body_def Let_def txs_loop_txid)

lemma ids_inv_start: "ids_inv bid0 txid0 (start_worker bid0 txid0 c)"
  by (simp add: ids_inv_def)

lemma ids_inv_tx_body:
  assumes "ids_inv bid0 txid0 w" and "txid w < maxInt64"
  shows "ids_inv bid0 txid0 (tx_body add check sched s b n tx w)"
  using assms unfolding ids_inv_def
  by (auto simp add: tx_body_counters tx_body_txCh incr_no_wrap nth_append)

lemma ids_inv_txs_loop:
  "ids_inv bid0 txid0 w \<Longrightarrow> txid w + int (length ts) \<le> maxInt64 \<Longrightarrow>
   ids_inv bid0 txid0 (txs_loop add check sched s b n ts w)"
proof (induction ts arbitrary: n w)
  case Nil
  then show ?case by simp
next
  case (Cons tx ts)
  let ?w = "tx_body add check sched s b n tx w"
  from Cons.prems have lt: "txid w < maxInt64" by simp
  then have "txid ?w = txid w + 1"
    by (simp add: tx_body_counters incr_no_wrap)
  with Cons.prems have "txid ?w + int (length ts) \<le> maxInt64" by simp
  with Cons.IH [OF ids_inv_tx_body [OF Cons.prems(1) lt]] show ?case
    by simp
qed

lemma ids_inv_commit_marks:
  "ids_inv bid0 txid0 w \<Longrightarrow> ids_inv bid0 txid0 (commit_marks di w)"
  by (simp add: ids_inv_def)

lemma ids_inv_block_rec:
  assumes "ids_inv bid0 txid0 w" and "bid w < maxInt64"
  shows "ids_inv bid0 txid0
           (w\<lparr>bid := incr (bid w), blockCh := blockCh w @ [Some (r\<lparr>br_id := incr (bid w)\<rparr>)]\<rparr>)"
  using assms unfolding ids_inv_def
  by (auto simp add: incr_no_wrap nth_append)

lemma ids_inv_block_body:
  assumes "ids_inv bid0 txid0 w" and "bid w < maxInt64"
    and "txid w + int (length (Txs (Block bi))) \<le> maxInt64"
  shows "ids_inv bid0 txid0 (block_body add check sched di bi w)"
proof -
  let ?r = "\<lparr>br_id = incr (bid w), br_height = Height bi, br_block = Block bi,
             br_hash = BlockHash (Block bi), br_orphan = False, br_status = Status bi,
             br_filen = FileN bi, br_filepos = FilePos bi, br_sync = (\<not> di)\<rparr>"
  let ?w1 = "w\<lparr>bid := incr (bid w), blockCh := blockCh w @ [Some (?r\<lparr>br_id := incr (bid w)\<rparr>)]\<rparr>"
  have inv1: "ids_inv bid0 txid0 ?w1"
    by (rule ids_inv_block_rec [OF assms(1,2)])
  have "txid ?w1 + int (length (Txs (Block bi))) \<le> maxInt64"
    using assms(3) by simp
  from ids_inv_txs_loop [OF inv1 this]
  have "ids_inv bid0 txid0 (commit_marks di
          (txs_loop add check sched (\<not> di) (incr (bid w)) 0 (Txs (Block bi)) ?w1))"
    by (rule ids_inv_commit_marks)
  then show ?thesis
    by (simp add: block_body_def Let_def)
qed

lemma ids_inv_blocks_loop:
  "ids_inv bid0 txid0 w \<Longrightarrow> bid w + int (length ch) \<le> maxInt64 \<Longrightarrow>
   txid w + int (length (all_txs ch)) \<le> maxInt64 \<Longrightarrow>
   ids_inv bid0 txid0 (blocks_loop add check sched di ch w)"
proof (induction ch arbitrary: w)
  case Nil
  then show ?case by simp
next
  case (Cons bi ch)
  let ?w = "block_body add check sched di bi w"
  from Cons.prems have lt: "bid w < maxInt64"
    and tx: "txid w + int (length (Txs (Block bi))) \<le> maxInt64"
    by (simp_all add: all_txs_def)
  from lt have b: "bid ?w = bid w + 1"
    by (simp add: block_body_bid incr_no_wrap)
  from tx have t: "txid ?w = txid w + int (length (Txs (Block bi)))"
    by (rule block_body_txid)
  from Cons.prems b t have "bid ?w + int (length ch) \<le> maxInt64"
    "txid ?w + int (length (all_txs ch)) \<le> maxInt64"
    by (simp_all add: all_txs_def)
  with Cons.IH [OF ids_inv_block_body [OF Cons.prems(1) lt tx]] show ?case
    by simp
qed

lemma sorted_by_position:
  "(\<forall>k<length xs. P (xs ! k) \<longrightarrow> f (xs ! k) = a + int k + 1) \<Longrightarrow>
   sorted_wrt (<) (map f (filter P xs)) \<and> (\<forall>x \<in> set (filter P xs). a < f x)"
proof (induction xs arbitrary: a)
  case Nil
  show ?case by simp
next
  case (Cons x xs)
  have "\<forall>k<length xs. P (xs ! k) \<longrightarrow> f (xs ! k) = (a + 1) + int k + 1"
  proof (intro allI impI)
    fix k assume "k < length xs" "P (xs ! k)"
    with Cons.prems [rule_format, of "Suc k"] show "f (xs ! k) = (a + 1) + int k + 1"
      by simp
  qed
  from Cons.IH [OF this]
  have IH: "sorted_wrt (<) (map f (filter P xs))" "\<forall>y \<in> set (filter P xs). a + 1 < f y"
    by simp_all
  from Cons.prems [rule_format, of 0] have x: "P x \<Longrightarrow> f x = a + 1"
    by simp
  from IH x show ?case
    by (auto simp: less_imp_le)
qed

lemma pgBlockWorker_Inr:
  assumes "pgBlockWorker add check new sched ch d di cs = Inr w"
  obtains pre post where "ch = pre @ post"
    and "w = blocks_loop add check sched di post
               (start_worker (fst (getLastHashAndHeight d)) (fst (getLastTxId d)) (new cs))"
proof -
  obtain bid0 height bhash e where g: "getLastHashAndHeight d = (bid0, height, bhash, e)"
    by (cases "getLastHashAndHeight d") auto
  obtain txid0 e' where t: "getLastTxId d = (txid0, e')"
    by (cases "getLastTxId d") auto
  from assms g have e: "e = None"
    by (cases e) (simp_all add: pgBlockWorker_def)
  from assms g t e have e': "e' = None"
    by (cases e') (simp_all add: pgBlockWorker_def)
  let ?post = "if bhash \<noteq> [] then fst (skip_loop bhash ch 0) else ch"
  from assms g t e e' have w: "w = blocks_loop add check sched di ?post
               (start_worker (fst (getLastHashAndHeight d)) (fst (getLastTxId d)) (new cs))"
    by (simp add: pgBlockWorker_def)
  from skip_loop_suffix [of ch bhash 0] obtain pre where "ch = pre @ ?post"
    by (cases "bhash \<noteq> []") auto
  from this w show ?thesis
    by (rule that)
qed

lemma pgBlockWorker_ids_inv:
  assumes "pgBlockWorker add check new sched ch d di cs = Inr w"
    and "fst (getLastHashAndHeight d) + int (length ch) \<le> maxInt64"
    and "fst (getLastTxId d) + int (length (all_txs ch)) \<le> maxInt64"
  shows "ids_inv (fst (getLastHashAndHeight d)) (fst (getLastTxId d)) w"
proof -
  let ?b0 = "fst (getLastHashAndHeight d)" and ?t0 = "fst (getLastTxId d)"
  from assms(1) obtain pre post where ch: "ch = pre @ post"
    and w: "w = blocks_loop add check sched di post (start_worker ?b0 ?t0 (new cs))"
    by (rule pgBlockWorker_Inr)
  from ch assms(2,3) have "bid (start_worker ?b0 ?t0 (new cs)) + int (length post) \<le> maxInt64"
    "txid (start_worker ?b0 ?t0 (new cs)) + int (length (all_txs post)) \<le> maxInt64"
    by (simp_all add: all_txs_def)
  from ids_inv_blocks_loop [OF ids_inv_start this] w show ?thesis
    by simp
qed

text \<open>
  C4. In a run whose counters do not reach the largest 64-bit integer, the ids of the
  block records are strictly increasing in the order in which the blocks are accepted,
  and so are the ids of the tx records that are not flagged as duplicates. The \<open>k\<close>-th
  block record carries the id \<open>last + k + 1\<close> and the \<open>k\<close>-th tx record, unless it is a
  duplicate, the id \<open>last + k + 1\<close>: every record uses up one value of its counter,
  also a duplicate, whose minted id is not given to any later record.
\<close>

theorem ids_strictly_increasing:
  assumes "pgBlockWorker add check new sched ch d di cs = Inr w"
    and "fst (getLastHashAndHeight d) + int (length ch) \<le> maxInt64"
    and "fst (getLastTxId d) + int (length (all_txs ch)) \<le> maxInt64"
  shows "sorted_wrt (<) (map br_id (recs (blockCh w))) \<and>
         sorted_wrt (<) (map tr_id (filter (\<lambda>r. \<not> tr_dupe r) (recs (txCh w)))) \<and>
         (\<forall>k<length (recs (blockCh w)).
            br_id (recs (blockCh w) ! k) = fst (getLastHashAndHeight d) + int k + 1) \<and>
         (\<forall>k<length (recs (txCh w)). \<not> tr_dupe (recs (txCh w) ! k) \<longrightarrow>
            tr_id (recs (txCh w) ! k) = fst (getLastTxId d) + int k + 1) \<and>
         bid w = fst (getLastHashAndHeight d) + int (length (recs (blockCh w))) \<and>
         txid w = fst (getLastTxId d) + int (length (recs (txCh w)))"
proof -
  let ?b0 = "fst (getLastHashAndHeight d)" and ?t0 = "fst (getLastTxId d)"
  from assms(1) obtain pre post where ch: "ch = pre @ post"
    and w: "w = blocks_loop add check sched di post (start_worker ?b0 ?t0 (new cs))"
    by (rule pgBlockWorker_Inr)
  from ch assms(2,3) have "bid (start_worker ?b0 ?t0 (new cs)) + int (length post) \<le> maxInt64"
    "txid (start_worker ?b0 ?t0 (new cs)) + int (length (all_txs post)) \<le> maxInt64"
    by (simp_all add: all_txs_def)
  from ids_inv_blocks_loop [OF ids_inv_start this] w have inv: "ids_inv ?b0 ?t0 w"
    by simp
  then have blocks: "\<forall>k<length (recs (blockCh w)).
            br_id (recs (blockCh w) ! k) = ?b0 + int k + 1"
    and txs: "\<forall>k<length (recs (txCh w)). \<not> tr_dupe (recs (txCh w) ! k) \<longrightarrow>
            tr_id (recs (txCh w) ! k) = ?t0 + int k + 1"
    and counters: "bid w = ?b0 + int (length (recs (blockCh w)))"
      "txid w = ?t0 + int (length (recs (txCh w)))"
    by (simp_all add: ids_inv_def)
  from blocks have "\<forall>k<length (recs (blockCh w)). True \<longrightarrow>
            br_id (recs (blockCh w) ! k) = ?b0 + int k + 1"
    by simp
  from sorted_by_position [where P = "\<lambda>r. True" and f = br_id, OF this]
  have s1: "sorted_wrt (<) (map br_id (recs (blockCh w)))"
    by simp
  from sorted_by_position [where P = "\<lambda>r. \<not> tr_dupe r" and f = tr_id, OF txs]
  have s2: "sorted_wrt (<) (map tr_id (filter (\<lambda>r. \<not> tr_dupe r) (recs (txCh w))))"
    by simp
  from s1 s2 blocks txs counters show ?thesis
    by (intro conjI)
qed

text \<open>
  Two blocks of one and two transactions, the second block repeating the transaction of
  the first: the tx records carry the ids 1, 1 (duplicate) and 3; the minted id 2 is not
  used.
\<close>

theorem ids_strictly_increasing_witness:
  "\<exists>w. pgBlockWorker txIdCache_add txIdCache_check newTxIdCache no_checks dup_stream
          empty_store True 10 = Inr w \<and>
       fst (getLastHashAndHeight empty_store) + int (length dup_stream) \<le> maxInt64 \<and>
       fst (getLastTxId empty_store) + int (length (all_txs dup_stream)) \<le> maxInt64 \<and>
       map br_id (recs (blockCh w)) = [1, 2] \<and>
       map (\<lambda>r. (tr_id r, tr_dupe r)) (recs (txCh w)) = [(1, False), (1, True), (3, False)] \<and>
       sorted_wrt (<) (map tr_id (filter (\<lambda>r. \<not> tr_dupe r) (recs (txCh w)))) \<and>
       bid w = 2 \<and> txid w = 3"
proof -
  define w where
    "w = blocks_loop txIdCache_add txIdCache_check no_checks True dup_stream
           (start_worker 0 0 (newTxIdCache 10))"
  have run: "pgBlockWorker txIdCache_add txIdCache_check newTxIdCache no_checks dup_stream
          empty_store True 10 = Inr w"
    unfolding w_def by (rule pgBlockWorker_empty_store) (simp_all add: empty_store_def)
  have bounds: "fst (getLastHashAndHeight empty_store) + int (length dup_stream) \<le> maxInt64"
    "fst (getLastTxId empty_store) + int (length (all_txs dup_stream)) \<le> maxInt64"
    by code_simp+
  have seeds: "fst (getLastHashAndHeight empty_store) = 0" "fst (getLastTxId empty_store) = 0"
    by code_simp+
  have vals: "map br_id (recs (blockCh w)) = [1, 2]"
    "map (\<lambda>r. (tr_id r, tr_dupe r)) (recs (txCh w)) = [(1, False), (1, True), (3, False)]"
    unfolding w_def by code_simp+
  from vals(1) have "length (map br_id (recs (blockCh w))) = length [1 :: int, 2]"
    by (simp only:)
  then have len1: "length (recs (blockCh w)) = 2"
    by simp
  from vals(2) have "length (map (\<lambda>r. (tr_id r, tr_dupe r)) (recs (txCh w)))
                     = length [(1 :: int, False), (1, True), (3, False)]"
    by (simp only:)
  then have len2: "length (recs (txCh w)) = 3"
    by simp
  from ids_strictly_increasing [OF run bounds]
  have s: "sorted_wrt (<) (map tr_id (filter (\<lambda>r. \<not> tr_dupe r) (recs (txCh w))))"
    and b: "bid w = 2" and t: "txid w = 3"
    by (simp_all add: seeds len1 len2)
  show ?thesis
    by (rule exI [of _ w]) (intro conjI run bounds vals s b t)
qed

section \<open>Resume state\<close>

lemma getLastTxId_greatest:
  assumes "Query_err (txs_faults d) = None" "Rows_err (txs_faults d) = None"
    "Scan_err (txs_faults d) = None" "txs d \<noteq> []"
  shows "getLastTxId d = (Max (t_id ` set (txs d)), None)"
proof -
  from order_by_desc_limit_1 [OF assms(4), of t_id]
  obtain r :: tx_row where r: "limit 1 (order_by_desc t_id (txs d)) = [r]"
    "t_id r = Max (t_id ` set (txs d))" by blast
  with assms show ?thesis
    by (simp add: getLastTxId_def)
qed

text \<open>
  The block query orders by height. The id it returns is the greatest one when ids grow
  with heights in the table, as they do after a load in height order without side
  branches.
\<close>

lemma getLastHashAndHeight_greatest_id:
  assumes "Query_err (blocks_faults d) = None" "Rows_err (blocks_faults d) = None"
    "Scan_err (blocks_faults d) = None" "blocks d \<noteq> []"
    and mono: "\<forall>r \<in> set (blocks d). \<forall>r' \<in> set (blocks d). b_height r \<le> b_height r' \<longrightarrow> b_id r \<le> b_id r'"
  shows "fst (getLastHashAndHeight d) = Max (b_id ` set (blocks d))"
proof -
  from getLastHashAndHeight_row [OF assms(1-4)]
  obtain r :: block_row where r: "r \<in> set (blocks d)"
    "b_height r = Max (b_height ` set (blocks d))"
    "getLastHashAndHeight d = (b_id r, b_height r, b_hash r, None)" by blast
  have "Max (b_id ` set (blocks d)) = b_id r"
  proof (rule Max_eqI)
    show "finite (b_id ` set (blocks d))" by simp
    show "y \<le> b_id r" if "y \<in> b_id ` set (blocks d)" for y
    proof -
      from that obtain r' where r': "r' \<in> set (blocks d)" "y = b_id r'" by auto
      then have "b_height r' \<le> b_height r"
        by (simp add: r(2))
      with mono r' r(1) show ?thesis by blast
    qed
    from r(1) show "b_id r \<in> b_id ` set (blocks d)" by simp
  qed
  with r(3) show ?thesis by simp
qed


text \<open>
  C1, amended. When the resume queries succeed, the coordinator reads the id, the height
  and the hash of a stored block of greatest height, and the greatest stored tx id (on
  empty tables: id 0, height \<open>-1\<close>, no hash, and tx id 0). These seed the counters: in a
  run whose counters do not wrap, the \<open>k\<close>-th accepted block receives the id read plus
  \<open>k + 1\<close>, so the first one the id read plus one, and the \<open>k\<close>-th tx record, unless it is
  a duplicate, the tx id read plus \<open>k + 1\<close>. The block id read is the greatest stored
  block id whenever ids grow with heights in the table.
\<close>

theorem resume_seeds:
  "(Query_err (blocks_faults d) = None \<and> Rows_err (blocks_faults d) = None \<and>
    Scan_err (blocks_faults d) = None \<and> blocks d \<noteq> [] \<longrightarrow>
      (\<exists>r \<in> set (blocks d).
         b_height r = Max (b_height ` set (blocks d)) \<and>
         getLastHashAndHeight d = (b_id r, b_height r, b_hash r, None) \<and>
         ((\<forall>x \<in> set (blocks d). \<forall>y \<in> set (blocks d).
             b_height x \<le> b_height y \<longrightarrow> b_id x \<le> b_id y) \<longrightarrow>
          b_id r = Max (b_id ` set (blocks d))))) \<and>
   (Query_err (blocks_faults d) = None \<and> Rows_err (blocks_faults d) = None \<and>
    blocks d = [] \<longrightarrow> getLastHashAndHeight d = (0, - 1, [], None)) \<and>
   (Query_err (txs_faults d) = None \<and> Rows_err (txs_faults d) = None \<and>
    Scan_err (txs_faults d) = None \<and> txs d \<noteq> [] \<longrightarrow>
      getLastTxId d = (Max (t_id ` set (txs d)), None)) \<and>
   (Query_err (txs_faults d) = None \<and> Rows_err (txs_faults d) = None \<and>
    txs d = [] \<longrightarrow> getLastTxId d = (0, None)) \<and>
   (pgBlockWorker add check new sched ch d di cs = Inr w \<and>
    fst (getLastHashAndHeight d) + int (length ch) \<le> maxInt64 \<and>
    fst (getLastTxId d) + int (length (all_txs ch)) \<le> maxInt64 \<longrightarrow>
      (\<forall>k<length (recs (blockCh w)).
         br_id (recs (blockCh w) ! k) = fst (getLastHashAndHeight d) + int k + 1) \<and>
      (\<forall>k<length (recs (txCh w)). \<not> tr_dupe (recs (txCh w) ! k) \<longrightarrow>
         tr_id (recs (txCh w) ! k) = fst (getLastTxId d) + int k + 1))"
proof (intro conjI impI)
  assume a: "Query_err (blocks_faults d) = None \<and> Rows_err (blocks_faults d) = None \<and>
    Scan_err (blocks_faults d) = None \<and> blocks d \<noteq> []"
  then have "\<exists>r \<in> set (blocks d). b_height r = Max (b_height ` set (blocks d)) \<and>
           getLastHashAndHeight d = (b_id r, b_height r, b_hash r, None)"
    by (intro getLastHashAndHeight_row) simp_all
  then obtain r :: block_row where r: "r \<in> set (blocks d)"
    "b_height r = Max (b_height ` set (blocks d))"
    "getLastHashAndHeight d = (b_id r, b_height r, b_hash r, None)"
    by blast
  have "b_id r = Max (b_id ` set (blocks d))"
    if "\<forall>x \<in> set (blocks d). \<forall>y \<in> set (blocks d). b_height x \<le> b_height y \<longrightarrow> b_id x \<le> b_id y"
  proof -
    from a that have "fst (getLastHashAndHeight d) = Max (b_id ` set (blocks d))"
      by (intro getLastHashAndHeight_greatest_id) simp_all
    with r(3) show ?thesis by simp
  qed
  with r show "\<exists>r \<in> set (blocks d).
         b_height r = Max (b_height ` set (blocks d)) \<and>
         getLastHashAndHeight d = (b_id r, b_height r, b_hash r, None) \<and>
         ((\<forall>x \<in> set (blocks d). \<forall>y \<in> set (blocks d).
             b_height x \<le> b_height y \<longrightarrow> b_id x \<le> b_id y) \<longrightarrow>
          b_id r = Max (b_id ` set (blocks d)))"
    by blast
next
  assume "Query_err (blocks_faults d) = None \<and> Rows_err (blocks_faults d) = None \<and>
    blocks d = []"
  then show "getLastHashAndHeight d = (0, - 1, [], None)"
    by (simp add: getLastHashAndHeight_empty)
next
  assume "Query_err (txs_faults d) = None \<and> Rows_err (txs_faults d) = None \<and>
    Scan_err (txs_faults d) = None \<and> txs d \<noteq> []"
  then show "getLastTxId d = (Max (t_id ` set (txs d)), None)"
    by (intro getLastTxId_greatest) simp_all
next
  assume "Query_err (txs_faults d) = None \<and> Rows_err (txs_faults d) = None \<and> txs d = []"
  then show "getLastTxId d = (0, None)"
    by (simp add: getLastTxId_def limit_def order_by_desc_def)
next
  assume a: "pgBlockWorker add check new sched ch d di cs = Inr w \<and>
    fst (getLastHashAndHeight d) + int (length ch) \<le> maxInt64 \<and>
    fst (getLastTxId d) + int (length (all_txs ch)) \<le> maxInt64"
  then have "ids_inv (fst (getLastHashAndHeight d)) (fst (getLastTxId d)) w"
    by (intro pgBlockWorker_ids_inv [of add check new sched ch d di cs]) simp_all
  then show "\<forall>k<length (recs (blockCh w)).
         br_id (recs (blockCh w) ! k) = fst (getLastHashAndHeight d) + int k + 1"
    and "\<forall>k<length (recs (txCh w)). \<not> tr_dupe (recs (txCh w) ! k) \<longrightarrow>
         tr_id (recs (txCh w) ! k) = fst (getLastTxId d) + int k + 1"
    by (simp_all add: ids_inv_def)
qed

text \<open>
  On the store that holds A0 and A1 with ids 1 and 2, where ids grow with heights, the
  id read is the greatest one, 2, and on the input A0, A1, A2 the block A2 and its tx
  receive the id 3. On the empty store the seeds are 0.
\<close>

theorem resume_seeds_witness:
  "getLastHashAndHeight linear_store = (2, 1, mk_hash 11, None) \<and>
   fst (getLastHashAndHeight linear_store) = Max (b_id ` set (blocks linear_store)) \<and>
   getLastTxId linear_store = (2, None) \<and>
   getLastHashAndHeight empty_store = (0, - 1, [], None) \<and>
   getLastTxId empty_store = (0, None) \<and>
   (\<exists>w. pgBlockWorker txIdCache_add txIdCache_check newTxIdCache no_checks chain_A0_A2
           linear_store False 10 = Inr w \<and>
        map br_id (recs (blockCh w)) = [3] \<and>
        br_id (recs (blockCh w) ! 0) = 3 \<and>
        map (\<lambda>r. (tr_id r, tr_dupe r)) (recs (txCh w)) = [(3, False)] \<and>
        tr_id (recs (txCh w) ! 0) = 3)"
proof -
  define w where
    "w = blocks_loop txIdCache_add txIdCache_check no_checks False [simple_block 2 12 11]
           (start_worker 2 2 (newTxIdCache 10))"
  have nf: "Query_err (blocks_faults linear_store) = None \<and>
      Rows_err (blocks_faults linear_store) = None \<and>
      Scan_err (blocks_faults linear_store) = None \<and> blocks linear_store \<noteq> []"
    "Query_err (txs_faults linear_store) = None \<and> Rows_err (txs_faults linear_store) = None \<and>
      Scan_err (txs_faults linear_store) = None \<and> txs linear_store \<noteq> []"
    by (simp_all add: linear_store_def no_faults_def)
  have ne: "Query_err (blocks_faults empty_store) = None \<and>
      Rows_err (blocks_faults empty_store) = None \<and> blocks empty_store = []"
    "Query_err (txs_faults empty_store) = None \<and> Rows_err (txs_faults empty_store) = None \<and>
      txs empty_store = []"
    by (simp_all add: empty_store_def no_faults_def)
  have mono: "\<forall>x \<in> set (blocks linear_store). \<forall>y \<in> set (blocks linear_store).
                b_height x \<le> b_height y \<longrightarrow> b_id x \<le> b_id y"
    by code_simp
  have g: "getLastHashAndHeight linear_store = (2, 1, mk_hash 11, None)"
    and t: "getLastTxId linear_store = (2, None)"
    by code_simp+
  have run: "pgBlockWorker txIdCache_add txIdCache_check newTxIdCache no_checks chain_A0_A2
           linear_store False 10 = Inr w"
    unfolding w_def by code_simp
  have bounds: "fst (getLastHashAndHeight linear_store) + int (length chain_A0_A2) \<le> maxInt64"
    "fst (getLastTxId linear_store) + int (length (all_txs chain_A0_A2)) \<le> maxInt64"
    by code_simp+
  have vals: "map br_id (recs (blockCh w)) = [3]"
    "map (\<lambda>r. (tr_id r, tr_dupe r)) (recs (txCh w)) = [(3, False)]"
    unfolding w_def by code_simp+
  have lens: "0 < length (recs (blockCh w))" "0 < length (recs (txCh w))"
    "\<not> tr_dupe (recs (txCh w) ! 0)"
    unfolding w_def by code_simp+
  note inst = resume_seeds [where d = linear_store and add = txIdCache_add
      and check = txIdCache_check and new = newTxIdCache and sched = no_checks
      and ch = chain_A0_A2 and di = False and cs = 10 and w = w]
  from inst nf(1) mono g have max: "fst (getLastHashAndHeight linear_store)
                                     = Max (b_id ` set (blocks linear_store))"
    by auto
  from inst run bounds lens have first: "br_id (recs (blockCh w) ! 0) = 3"
    "tr_id (recs (txCh w) ! 0) = 3"
    by (auto simp: g t)
  from resume_seeds [where d = empty_store] ne
  have e: "getLastHashAndHeight empty_store = (0, - 1, [], None)"
    "getLastTxId empty_store = (0, None)"
    by blast+
  show ?thesis
    by (intro conjI g max t e exI [of _ w] run vals first)
qed

section \<open>The TxIn writer\<close>

lemma rows_of_simps [simp]:
  "rows_of [] = []" "rows_of (Begin # ops) = rows_of ops" "rows_of (Commit # ops) = rows_of ops"
  "rows_of (Exec r # ops) = r # rows_of ops"
  by (simp_all add: rows_of_def)

lemma rows_of_append [simp]: "rows_of (xs @ ys) = rows_of xs @ rows_of ys"
  by (simp add: rows_of_def)

lemma pgTxInWriter_rows: "rows_of (pgTxInWriter check c) = map (txin_exec check) (recs c)"
proof -
  have "rows_of (pgTxInWriter_loop check c) = map (txin_exec check) (recs c)"
    by (induction check c rule: pgTxInWriter_loop.induct) simp_all
  then show ?thesis
    by (simp add: pgTxInWriter_def)
qed

lemma txin_exec_prevout:
  "i_prevout_tx_id (txin_exec check tr) =
     (if N (PrevOut (ir_txIn tr)) = 0xffffffff then None
      else fst (check (ir_idCache tr) (Hash (PrevOut (ir_txIn tr)))))"
  "i_prevout_n (txin_exec check tr) = int32 (uint (N (PrevOut (ir_txIn tr))))"
  "i_prevout_hash (txin_exec check tr) = Hash (PrevOut (ir_txIn tr))"
  by (simp_all add: txin_exec_def Let_def)

lemma txIdCache_check_result:
  "fst (txIdCache_check c h) = map_option fst (map_of (entries c) h)"
  by (simp add: txIdCache_check_def split: option.splits)

text \<open>
  C3. The rows the TxIn writer appends are the images of the records it receives. For a
  record whose prevout\_n is \<open>0xFFFFFFFF\<close> the row has a null prevout\_tx\_id; for any
  other record prevout\_tx\_id is what \<^verbatim>\<open>check\<close> on the prevout hash returns: the id
  on a hit and null on a miss. So every appended row whose stored prevout\_n is \<open>-1\<close> has
  a null prevout\_tx\_id. This holds for any cache.
\<close>

theorem txins_prevout_tx_id:
  fixes check :: "'c \<Rightarrow> Uint256 \<Rightarrow> int option \<times> 'c" and c :: "'c txInRec option list"
  shows "rows_of (pgTxInWriter check c) = map (txin_exec check) (recs c) \<and>
         (\<forall>tr \<in> set (recs c).
            (N (PrevOut (ir_txIn tr)) = 0xffffffff \<longrightarrow>
               i_prevout_tx_id (txin_exec check tr) = None) \<and>
            (N (PrevOut (ir_txIn tr)) \<noteq> 0xffffffff \<longrightarrow>
               i_prevout_tx_id (txin_exec check tr)
                 = fst (check (ir_idCache tr) (Hash (PrevOut (ir_txIn tr)))))) \<and>
         (\<forall>r \<in> set (rows_of (pgTxInWriter check c)).
            i_prevout_n r = - 1 \<longrightarrow> i_prevout_tx_id r = None)"
proof (intro conjI ballI impI)
  show "rows_of (pgTxInWriter check c) = map (txin_exec check) (recs c)"
    by (rule pgTxInWriter_rows)
next
  fix tr :: "'c txInRec"
  assume "N (PrevOut (ir_txIn tr)) = 0xffffffff"
  then show "i_prevout_tx_id (txin_exec check tr) = None"
    by (simp add: txin_exec_prevout)
next
  fix tr :: "'c txInRec"
  assume "N (PrevOut (ir_txIn tr)) \<noteq> 0xffffffff"
  then show "i_prevout_tx_id (txin_exec check tr)
                 = fst (check (ir_idCache tr) (Hash (PrevOut (ir_txIn tr))))"
    by (simp add: txin_exec_prevout)
next
  fix r assume "r \<in> set (rows_of (pgTxInWriter check c))" and n: "i_prevout_n r = - 1"
  then obtain tr where "r = txin_exec check tr"
    by (auto simp: pgTxInWriter_rows)
  with n show "i_prevout_tx_id r = None"
    by (simp add: txin_exec_prevout int32_eq_minus_1)
qed

text \<open>
  A coinbase input, a hit and a miss: the rows carry null, the cached id 1, and null.
\<close>

theorem txins_prevout_tx_id_witness:
  "map (\<lambda>r. (i_tx_id r, i_prevout_n r, i_prevout_tx_id r))
       (rows_of (pgTxInWriter txIdCache_check txin_msgs))
     = [(1, - 1, None), (2, 0, Some 1), (3, 0, None)] \<and>
   map (\<lambda>tr. N (PrevOut (ir_txIn tr)) = 0xffffffff) (recs txin_msgs) = [True, False, False] \<and>
   map (\<lambda>tr. fst (txIdCache_check (ir_idCache tr) (Hash (PrevOut (ir_txIn tr)))))
       (recs txin_msgs) = [None, Some 1, None]"
proof -
  have rs: "recs txin_msgs =
     [\<lparr>ir_txId = 1, ir_n = 0, ir_txIn = coinbase_in, ir_idCache = cache_101\<rparr>,
      \<lparr>ir_txId = 2, ir_n = 0, ir_txIn = spend_in 101, ir_idCache = cache_101\<rparr>,
      \<lparr>ir_txId = 3, ir_n = 0, ir_txIn = spend_in 77, ir_idCache = cache_101\<rparr>]"
    by (simp add: txin_msgs_def)
  have n: "map (\<lambda>tr. N (PrevOut (ir_txIn tr)) = 0xffffffff) (recs txin_msgs) = [True, False, False]"
    by (simp add: rs coinbase_in_def spend_in_def)
  have chk: "map (\<lambda>tr. fst (txIdCache_check (ir_idCache tr) (Hash (PrevOut (ir_txIn tr)))))
       (recs txin_msgs) = [None, Some 1, None]"
    by code_simp
  have fields: "map (\<lambda>tr. (i_tx_id (txin_exec txIdCache_check tr),
                              i_prevout_n (txin_exec txIdCache_check tr))) (recs txin_msgs)
        = [(1, - 1), (2, 0), (3, 0)]"
    by code_simp
  from txins_prevout_tx_id [of txIdCache_check txin_msgs] n chk fields
  show ?thesis
    by (simp add: rs)
qed

section \<open>The cache while nothing is evicted\<close>
















section \<open>The Tx writer\<close>

lemma txs_stream_simps [simp]:
  "txs_stream [] = []" "txs_stream (Inl a # ops) = a # txs_stream ops"
  "txs_stream (Inr b # ops) = txs_stream ops" "txs_stream (xs @ ys) = txs_stream xs @ txs_stream ys"
  by (simp_all add: txs_stream_def)

lemma block_txs_stream_simps [simp]:
  "block_txs_stream [] = []" "block_txs_stream (Inl a # ops) = block_txs_stream ops"
  "block_txs_stream (Inr b # ops) = b # block_txs_stream ops"
  "block_txs_stream (xs @ ys) = block_txs_stream xs @ block_txs_stream ys"
  by (simp_all add: block_txs_stream_def)









text \<open>
  The hypothesis on the capacity is needed: when the entry of a transaction has been
  evicted before its second sighting, the transaction gets a fresh id and a second row.
\<close>

lemma evicted_tx_inserted_again:
  "(case pgBlockWorker txIdCache_add txIdCache_check newTxIdCache no_checks evict_stream
           empty_store True 1 of
      Inl err \<Rightarrow> False
    | Inr w \<Rightarrow>
        map (\<lambda>row. (t_id row, t_txid row)) (rows_of (txs_stream (pgTxWriter (txCh w))))
          = [(1, mk_hash 101), (2, mk_hash 102), (3, mk_hash 101)])"
  by code_simp

end
